theory Spec2Isabelle
  imports Complex_Main "HOL-Library.AList" "HOL-Library.Sublist"
begin

section \<open>JavaScript values used by the animation planner\<close>

text \<open>
  The geometry the component reads is either a \<^verbatim>\<open>DOMRect\<close> returned by
  \<^verbatim>\<open>getBoundingClientRect()\<close> (four finite numbers) or the empty object
  \<^verbatim>\<open>{}\<close> stored for a key without a DOM node, whose fields all read as
  \<^verbatim>\<open>undefined\<close>. Numbers are modelled as reals (no rounding, no infinities);
  \<^verbatim>\<open>undefined\<close> and \<^verbatim>\<open>NaN\<close> are explicit because the arithmetic and the
  strict comparisons of the planner treat them differently.
\<close>

type_synonym key = string
type_synonym node = nat
type_synonym addr = nat
type_synonym refinst = nat

datatype jsval = Undefined | NaN | Num real

datatype snapshot = EmptyObject | DOMRect real real real real

text \<open>Field reads \<^verbatim>\<open>r.left\<close>, \<^verbatim>\<open>r.top\<close>, \<^verbatim>\<open>r.width\<close>, \<^verbatim>\<open>r.height\<close>;
  the arguments of \<open>DOMRect\<close> are in that order.\<close>

fun get_left :: "snapshot \<Rightarrow> jsval" where
  "get_left EmptyObject = Undefined"
| "get_left (DOMRect l t w h) = Num l"

fun get_top :: "snapshot \<Rightarrow> jsval" where
  "get_top EmptyObject = Undefined"
| "get_top (DOMRect l t w h) = Num t"

fun get_width :: "snapshot \<Rightarrow> jsval" where
  "get_width EmptyObject = Undefined"
| "get_width (DOMRect l t w h) = Num w"

fun get_height :: "snapshot \<Rightarrow> jsval" where
  "get_height EmptyObject = Undefined"
| "get_height (DOMRect l t w h) = Num h"

text \<open>\<^verbatim>\<open>!x\<close>: true for \<^verbatim>\<open>undefined\<close>, \<^verbatim>\<open>NaN\<close> and \<^verbatim>\<open>0\<close>.\<close>

fun js_not :: "jsval \<Rightarrow> bool" where
  "js_not Undefined = True"
| "js_not NaN = True"
| "js_not (Num x) = (x = 0)"

text \<open>\<^verbatim>\<open>a * b\<close> and \<^verbatim>\<open>a - b\<close>: \<^verbatim>\<open>undefined\<close> converts to \<^verbatim>\<open>NaN\<close>,
  and \<^verbatim>\<open>NaN\<close> is absorbing.\<close>

fun js_mul :: "jsval \<Rightarrow> jsval \<Rightarrow> jsval" where
  "js_mul (Num a) (Num b) = Num (a * b)"
| "js_mul a b = NaN"

fun js_sub :: "jsval \<Rightarrow> jsval \<Rightarrow> jsval" where
  "js_sub (Num a) (Num b) = Num (a - b)"
| "js_sub a b = NaN"

text \<open>\<^verbatim>\<open>a !== b\<close>: \<^verbatim>\<open>NaN\<close> differs from everything, itself included.\<close>

fun strict_neq :: "jsval \<Rightarrow> jsval \<Rightarrow> bool" where
  "strict_neq (Num a) (Num b) = (a \<noteq> b)"
| "strict_neq Undefined Undefined = False"
| "strict_neq a b = True"

section \<open>The animation planner (componentDidUpdate, "Calculating the animations")\<close>

text \<open>The value of \<^verbatim>\<open>style.transform\<close>: the empty string, or the string
  \<^verbatim>\<open>translate(${x}px, ${y}px)\<close> built from two numbers.\<close>

datatype transform = NoTransform | Translate jsval jsval

text \<open>An entry of the local \<^verbatim>\<open>animations\<close> object: the two keyframes
  \<^verbatim>\<open>[{transform: start}, {transform: end}]\<close>.\<close>

type_synonym descriptor = "transform \<times> transform"

text \<open>
  \<^verbatim>\<open>(!snap.height && !snap.width) ? [real.width * -1, real.top] : [snap.left, snap.top]\<close>,
  the expression that resolves both \<^verbatim>\<open>[startLeft, startTop]\<close> (from \<^verbatim>\<open>first\<close>) and
  \<^verbatim>\<open>[endLeft, endTop]\<close> (from \<^verbatim>\<open>last\<close>).
\<close>

definition resolve_position :: "snapshot \<Rightarrow> snapshot \<Rightarrow> jsval \<times> jsval" where
  "resolve_position snap real' =
     (if js_not (get_height snap) \<and> js_not (get_width snap)
      then (js_mul (get_width real') (Num (- 1)), get_top real')
      else (get_left snap, get_top snap))"

text \<open>The body of the planning loop for one key, given its three snapshots
  \<^verbatim>\<open>first\<close>, \<^verbatim>\<open>real\<close> and \<^verbatim>\<open>last\<close> (primed here: \<open>real\<close> and \<open>last\<close> are
  constants of HOL).\<close>

definition plan_key :: "snapshot \<Rightarrow> snapshot \<Rightarrow> snapshot \<Rightarrow> descriptor option" where
  "plan_key first' real' last' =
     (case resolve_position first' real' of (startLeft, startTop) \<Rightarrow>
      case resolve_position last' real' of (endLeft, endTop) \<Rightarrow>
        if strict_neq startLeft endLeft \<or> strict_neq startTop endTop \<or>
           strict_neq endLeft (get_left real') \<or> strict_neq endTop (get_top real')
        then Some (Translate (js_sub startLeft (get_left real')) (js_sub startTop (get_top real')),
                   Translate (js_sub endLeft (get_left real')) (js_sub endTop (get_top real')))
        else None)"

section \<open>Objects, elements, props and the host surface\<close>

text \<open>
  A JavaScript object that the code enumerates with \<^verbatim>\<open>for (let key in obj)\<close> is an
  association list in insertion order (\<open>AList.update\<close> overwrites in place or appends,
  \<open>AList.delete\<close> removes, \<open>map_of\<close> reads). The keys produced by React for children
  are never integer-like, so enumeration order is insertion order. Objects that are only
  read and written by key are maps.
\<close>

type_synonym 'v js_object = "(key \<times> 'v) list"

text \<open>A child's \<^verbatim>\<open>ref\<close>: absent, a string, a callback of the owner, the component's own
  tracking callback \<^verbatim>\<open>(r) => { this.childRefs[key] = r; }\<close>, or two callbacks chained.\<close>

datatype ref = NoRef | StringRef string | CallbackRef nat | TrackRef key | Chained ref ref

text \<open>A React element. \<open>eid\<close> is the identity of the object: \<^verbatim>\<open>a === b\<close> on elements
  is \<open>eid a = eid b\<close>.\<close>

record element =
  eid :: nat
  etype :: string
  eref :: ref

type_synonym child_mapping = "element option js_object"

datatype propval =
    PComponent string
  | PFunction "element \<Rightarrow> element"
  | PNodes "element list"
  | PString string
  | PBool bool
  | PNumber real

text \<open>The props object; \<open>pid\<close> is its identity (\<^verbatim>\<open>prevProps === this.props\<close>).\<close>

record props_obj =
  pid :: nat
  pfields :: "propval js_object"

text \<open>The calls \<^verbatim>\<open>React.cloneElement(factoryChild, {key, ref})\<close> and
  \<^verbatim>\<open>React.createElement(type, props, children)\<close>, kept as the calls they are.\<close>

datatype rendered_child = CloneElement element key ref

datatype rendered = CreateElement "propval option" "propval js_object" "rendered_child list"

record style =
  display :: string
  transition :: string
  transform :: transform

text \<open>The closure stored in \<^verbatim>\<open>this.animations[key]\<close>; it captures \<^verbatim>\<open>key\<close>.\<close>

datatype cancel_op = Cancel key

text \<open>The two nested \<^verbatim>\<open>requestAnimationFrame\<close> callbacks; each captures the local
  \<^verbatim>\<open>animations\<close> object.\<close>

datatype frame_callback = Frame1 "descriptor js_object" | Frame2 "descriptor js_object"

datatype jserror = TypeError

text \<open>Every call that leaves the component, in the order the calls are made.\<close>

datatype event =
    Measure node
  | SetDisplay node string
  | SetTransition node string
  | SetTransform node transform
  | CancelInvoked key
  | SetState "addr option"
  | Warning string
  | RequestAnimationFrame
  | AddEventListener node key

text \<open>
  The collaborators the component calls: \<^verbatim>\<open>ReactDom.findDOMNode\<close>, the layout engine
  behind \<^verbatim>\<open>getBoundingClientRect\<close> (left, top, width, height of a node under the
  current inline styles), and the two functions of \<^verbatim>\<open>./utils/ChildMapping\<close>, which
  are taken as parameters.
\<close>

record env =
  findDOMNode :: "refinst \<Rightarrow> node option"
  getBoundingClientRect :: "(node \<Rightarrow> style) \<Rightarrow> node \<Rightarrow> real \<times> real \<times> real \<times> real"
  getChildMapping :: "propval option \<Rightarrow> child_mapping option"
  mergeChildMappings :: "child_mapping option \<Rightarrow> child_mapping option \<Rightarrow> child_mapping"

text \<open>
  The component instance (\<^verbatim>\<open>this.props\<close>, \<^verbatim>\<open>this.state.children\<close>, \<^verbatim>\<open>this.childRefs\<close>,
  \<^verbatim>\<open>this.children\<close>, ...) together with the host surface it mutates. The child
  mappings live in \<open>heap\<close>: \<^verbatim>\<open>this.setState({children: this.children})\<close> stores a
  reference, so \<^verbatim>\<open>this.children\<close> and \<^verbatim>\<open>this.state.children\<close> are then one object.
  \<open>None\<close> in \<open>children\<close>, \<open>state_children\<close> and \<open>leavingKeys\<close> is \<^verbatim>\<open>undefined\<close>;
  \<open>None\<close> at a key of \<open>domNodes\<close> or \<open>childRefs\<close> is \<^verbatim>\<open>undefined\<close> or \<^verbatim>\<open>null\<close>.
\<close>

record world =
  props :: props_obj
  state_children :: "addr option"
  childRefs :: "key \<rightharpoonup> refinst"
  children :: "addr option"
  leavingKeys :: "bool js_object option"
  animations :: "cancel_op js_object"
  startingPositions :: "key \<rightharpoonup> snapshot"
  realPositions :: "key \<rightharpoonup> snapshot"
  endingPositions :: "key \<rightharpoonup> snapshot"
  domNodes :: "key \<rightharpoonup> node"
  heap :: "addr \<Rightarrow> child_mapping"
  next_addr :: addr
  styles :: "node \<Rightarrow> style"
  listeners :: "(node \<times> key) list"
  frames :: "frame_callback list"
  trace :: "event list"

text \<open>The keys that \<^verbatim>\<open>for (let key in this.children)\<close> visits; none when
  \<^verbatim>\<open>this.children\<close> is \<^verbatim>\<open>undefined\<close>.\<close>

definition for_in_children :: "world \<Rightarrow> key list" where
  "for_in_children w = (case children w of None \<Rightarrow> [] | Some a \<Rightarrow> map fst (heap w a))"

text \<open>The object \<^verbatim>\<open>this.state.children\<close> that \<^verbatim>\<open>render\<close> enumerates.\<close>

definition visible_children :: "world \<Rightarrow> child_mapping" where
  "visible_children w = (case state_children w of None \<Rightarrow> [] | Some a \<Rightarrow> heap w a)"

definition setState :: "addr option \<Rightarrow> world \<Rightarrow> world" where
  "setState c w = w\<lparr>state_children := c, trace := trace w @ [SetState c]\<rparr>"

definition requestAnimationFrame :: "frame_callback \<Rightarrow> world \<Rightarrow> world" where
  "requestAnimationFrame cb w =
     w\<lparr>frames := frames w @ [cb], trace := trace w @ [RequestAnimationFrame]\<rparr>"

text \<open>Writes to \<^verbatim>\<open>node.style.display\<close>, \<^verbatim>\<open>.transition\<close> and \<^verbatim>\<open>.transform\<close>.\<close>

definition set_display :: "node \<Rightarrow> string \<Rightarrow> world \<Rightarrow> world" where
  "set_display n v w =
     w\<lparr>styles := (styles w)(n := (styles w n)\<lparr>display := v\<rparr>),
       trace := trace w @ [SetDisplay n v]\<rparr>"

definition set_transition :: "node \<Rightarrow> string \<Rightarrow> world \<Rightarrow> world" where
  "set_transition n v w =
     w\<lparr>styles := (styles w)(n := (styles w n)\<lparr>transition := v\<rparr>),
       trace := trace w @ [SetTransition n v]\<rparr>"

definition set_transform :: "node \<Rightarrow> transform \<Rightarrow> world \<Rightarrow> world" where
  "set_transform n v w =
     w\<lparr>styles := (styles w)(n := (styles w n)\<lparr>transform := v\<rparr>),
       trace := trace w @ [SetTransform n v]\<rparr>"

section \<open>Mounting\<close>

text \<open>
  \<^verbatim>\<open>constructor\<close>: a fresh instance has no \<^verbatim>\<open>children\<close> and no \<^verbatim>\<open>leavingKeys\<close>
  field; \<^verbatim>\<open>this.childRefs\<close> is empty and \<^verbatim>\<open>this.state.children\<close> is the object
  returned by \<^verbatim>\<open>getChildMapping(props.children)\<close> (or its falsy result).
\<close>

definition constructor :: "env \<Rightarrow> props_obj \<Rightarrow> world \<Rightarrow> world" where
  "constructor E p w =
     (case getChildMapping E (map_of (pfields p) ''children'') of
        None \<Rightarrow>
          w\<lparr>props := p, childRefs := Map.empty, state_children := None,
            children := None, leavingKeys := None\<rparr>
      | Some m \<Rightarrow>
          w\<lparr>props := p, childRefs := Map.empty, state_children := Some (next_addr w),
            children := None, leavingKeys := None,
            heap := (heap w)(next_addr w := m), next_addr := Suc (next_addr w)\<rparr>)"

definition componentWillMount :: "world \<Rightarrow> world" where
  "componentWillMount w =
     w\<lparr>animations := [], startingPositions := Map.empty, endingPositions := Map.empty,
       domNodes := Map.empty\<rparr>"

text \<open>\<^verbatim>\<open>this.domNodes[key] = ReactDom.findDOMNode(this.childRefs[key])\<close> for every key
  of \<^verbatim>\<open>this.children\<close>.\<close>

definition updateDomNodes :: "env \<Rightarrow> world \<Rightarrow> world" where
  "updateDomNodes E w =
     fold (\<lambda>key w'.
            w'\<lparr>domNodes := (domNodes w')(key :=
                 (case childRefs w' key of None \<Rightarrow> None | Some r \<Rightarrow> findDOMNode E r))\<rparr>)
          (for_in_children w) w"

definition componentDidMount :: "env \<Rightarrow> world \<Rightarrow> world" where
  "componentDidMount E w = updateDomNodes E w"

section \<open>Receiving props and the snapshot before the update\<close>

text \<open>
  \<^verbatim>\<open>componentWillReceiveProps\<close>: the merged mapping is a new object, stored in
  \<^verbatim>\<open>this.children\<close> and, by \<^verbatim>\<open>setState\<close>, in \<^verbatim>\<open>this.state.children\<close>. A key of
  the previous mapping with a truthy child and without an own property in the next
  mapping is marked leaving.
\<close>

definition hasNext :: "child_mapping option \<Rightarrow> key \<Rightarrow> bool" where
  "hasNext nextChildMapping key =
     (case nextChildMapping of None \<Rightarrow> False | Some m \<Rightarrow> map_of m key \<noteq> None)"

definition mark_leaving ::
  "child_mapping \<Rightarrow> child_mapping option \<Rightarrow> key \<Rightarrow> bool js_object \<Rightarrow> bool js_object" where
  "mark_leaving prevChildMapping nextChildMapping key lk =
     (case map_of prevChildMapping key of
        Some (Some child) \<Rightarrow>
          if \<not> hasNext nextChildMapping key then AList.update key True lk else lk
      | _ \<Rightarrow> lk)"

definition componentWillReceiveProps :: "env \<Rightarrow> props_obj \<Rightarrow> world \<Rightarrow> world" where
  "componentWillReceiveProps E nextProps w =
     (let nextChildMapping = getChildMapping E (map_of (pfields nextProps) ''children'');
          prevChildMapping = (case state_children w of None \<Rightarrow> None | Some a \<Rightarrow> Some (heap w a));
          a = next_addr w;
          w1 = w\<lparr>children := Some a,
                 heap := (heap w)(a := mergeChildMappings E prevChildMapping nextChildMapping),
                 next_addr := Suc a\<rparr>;
          w2 = setState (Some a) w1;
          prevObject = (case prevChildMapping of None \<Rightarrow> [] | Some m \<Rightarrow> m)
      in w2\<lparr>leavingKeys :=
              Some (fold (mark_leaving prevObject nextChildMapping) (map fst prevObject) [])\<rparr>)"

text \<open>\<^verbatim>\<open>domNode ? domNode.getBoundingClientRect() : {}\<close>\<close>

definition measure_node :: "env \<Rightarrow> world \<Rightarrow> node \<Rightarrow> snapshot" where
  "measure_node E w n =
     (case getBoundingClientRect E (styles w) n of (l, t, wd, h) \<Rightarrow> DOMRect l t wd h)"

definition capture_starting :: "env \<Rightarrow> key \<Rightarrow> world \<Rightarrow> world" where
  "capture_starting E key w =
     (case domNodes w key of
        None \<Rightarrow> w\<lparr>startingPositions := (startingPositions w)(key \<mapsto> EmptyObject)\<rparr>
      | Some n \<Rightarrow>
          w\<lparr>startingPositions := (startingPositions w)(key \<mapsto> measure_node E w n),
            trace := trace w @ [Measure n]\<rparr>)"

definition capture_real :: "env \<Rightarrow> key \<Rightarrow> world \<Rightarrow> world" where
  "capture_real E key w =
     (case domNodes w key of
        None \<Rightarrow> w\<lparr>realPositions := (realPositions w)(key \<mapsto> EmptyObject)\<rparr>
      | Some n \<Rightarrow>
          w\<lparr>realPositions := (realPositions w)(key \<mapsto> measure_node E w n),
            trace := trace w @ [Measure n]\<rparr>)"

definition capture_ending :: "env \<Rightarrow> key \<Rightarrow> world \<Rightarrow> world" where
  "capture_ending E key w =
     (case domNodes w key of
        None \<Rightarrow> w\<lparr>endingPositions := (endingPositions w)(key \<mapsto> EmptyObject)\<rparr>
      | Some n \<Rightarrow>
          w\<lparr>endingPositions := (endingPositions w)(key \<mapsto> measure_node E w n),
            trace := trace w @ [Measure n]\<rparr>)"

definition componentWillUpdate :: "env \<Rightarrow> world \<Rightarrow> world" where
  "componentWillUpdate E w =
     (let w1 = updateDomNodes E (w\<lparr>startingPositions := Map.empty\<rparr>)
      in fold (capture_starting E) (for_in_children w1) w1)"

section \<open>The pass after the update\<close>

text \<open>
  Invoking the closure registered for a key:
  \<^verbatim>\<open>this.domNodes[key].style.transition = ''; this.domNodes[key].style.transform = '';
  delete this.animations[key];\<close>. Reading \<^verbatim>\<open>.style\<close> of a missing node throws.
\<close>

fun invoke_cancel :: "cancel_op \<Rightarrow> world \<Rightarrow> jserror + world" where
  "invoke_cancel (Cancel key) w =
     (case domNodes w key of
        None \<Rightarrow> Inl TypeError
      | Some n \<Rightarrow>
          (let w1 = w\<lparr>trace := trace w @ [CancelInvoked key]\<rparr>;
               w2 = set_transition n [] w1;
               w3 = set_transform n NoTransform w2
           in Inr (w3\<lparr>animations := AList.delete key (animations w3)\<rparr>)))"

text \<open>
  \<^verbatim>\<open>for (let key in this.animations) this.animations[key]();\<close> over the keys present
  when the loop starts; a key deleted before it is reached is not visited.
\<close>

fun cancel_loop :: "key list \<Rightarrow> world \<Rightarrow> jserror + world" where
  "cancel_loop [] w = Inr w"
| "cancel_loop (key # keys) w =
     (case map_of (animations w) key of
        None \<Rightarrow> cancel_loop keys w
      | Some c \<Rightarrow>
          (case invoke_cancel c w of
             Inl e \<Rightarrow> Inl e
           | Inr w' \<Rightarrow> cancel_loop keys w'))"

definition cancel_all :: "world \<Rightarrow> jserror + world" where
  "cancel_all w = cancel_loop (map fst (animations w)) w"

text \<open>Hiding the nodes of the leaving keys, remembering their \<^verbatim>\<open>display\<close>.\<close>

definition for_in_leavingKeys :: "world \<Rightarrow> key list" where
  "for_in_leavingKeys w = (case leavingKeys w of None \<Rightarrow> [] | Some lk \<Rightarrow> map fst lk)"

definition hide_step :: "key \<Rightarrow> string js_object \<times> world \<Rightarrow> string js_object \<times> world" where
  "hide_step key s =
     (case s of (originalDisplays, w) \<Rightarrow>
        (case domNodes w key of
           None \<Rightarrow> (originalDisplays, w)
         | Some n \<Rightarrow>
             (AList.update key (display (styles w n)) originalDisplays,
              set_display n ''none'' w)))"

definition hide_leaving :: "world \<Rightarrow> string js_object \<times> world" where
  "hide_leaving w = fold hide_step (for_in_leavingKeys w) ([], w)"

text \<open>\<^verbatim>\<open>this.domNodes[key].style.display = originalDisplays[key]\<close> for every entry.\<close>

fun restore_displays :: "string js_object \<Rightarrow> world \<Rightarrow> jserror + world" where
  "restore_displays [] w = Inr w"
| "restore_displays ((key, v) # rest) w =
     (case domNodes w key of
        None \<Rightarrow> Inl TypeError
      | Some n \<Rightarrow> restore_displays rest (set_display n v w))"

text \<open>The planning loop: reading a field of a missing snapshot throws.\<close>

fun calculate_loop :: "world \<Rightarrow> key list \<Rightarrow> descriptor js_object \<Rightarrow> jserror + descriptor js_object" where
  "calculate_loop w [] animations' = Inr animations'"
| "calculate_loop w (key # keys) animations' =
     (case (startingPositions w key, realPositions w key, endingPositions w key) of
        (Some first', Some real', Some last') \<Rightarrow>
          calculate_loop w keys
            (case plan_key first' real' last' of
               None \<Rightarrow> animations'
             | Some d \<Rightarrow> AList.update key d animations')
      | _ \<Rightarrow> Inl TypeError)"

definition calculate_animations :: "world \<Rightarrow> jserror + descriptor js_object" where
  "calculate_animations w = calculate_loop w (for_in_children w) []"

text \<open>Registering the cancel closures and applying the start transforms.\<close>

fun create_animations :: "descriptor js_object \<Rightarrow> world \<Rightarrow> jserror + world" where
  "create_animations [] w = Inr w"
| "create_animations ((key, d) # rest) w =
     (let w1 = w\<lparr>animations := AList.update key (Cancel key) (animations w)\<rparr>
      in case domNodes w1 key of
           None \<Rightarrow> Inl TypeError
         | Some n \<Rightarrow> create_animations rest (set_transform n (fst d) w1))"

text \<open>What \<^verbatim>\<open>componentDidUpdate\<close> does once the registered animations are cancelled:
  the real snapshot, the hide, ending snapshot and restore sequence, the planning, the
  start transforms and the request of the first frame.\<close>

definition measure_and_animate :: "env \<Rightarrow> world \<Rightarrow> jserror + world" where
  "measure_and_animate E w2 =
     (let w3 = fold (capture_real E) (for_in_children w2) (w2\<lparr>realPositions := Map.empty\<rparr>)
      in case hide_leaving w3 of (originalDisplays, w4) \<Rightarrow>
        (let w5 = fold (capture_ending E) (for_in_children w4)
                    (w4\<lparr>endingPositions := Map.empty\<rparr>)
         in case restore_displays originalDisplays w5 of
              Inl e \<Rightarrow> Inl e
            | Inr w6 \<Rightarrow>
                (case calculate_animations w6 of
                   Inl e \<Rightarrow> Inl e
                 | Inr animations' \<Rightarrow>
                     (case create_animations animations' w6 of
                        Inl e \<Rightarrow> Inl e
                      | Inr w7 \<Rightarrow>
                          Inr (requestAnimationFrame (Frame1 animations') w7)))))"

definition componentDidUpdate :: "env \<Rightarrow> props_obj \<Rightarrow> world \<Rightarrow> jserror + world" where
  "componentDidUpdate E prevProps w =
     (if pid prevProps = pid (props w) then Inr w
      else
        (case cancel_all (updateDomNodes E w) of
           Inl e \<Rightarrow> Inl e
         | Inr w2 \<Rightarrow> measure_and_animate E w2))"

section \<open>The two animation frames and the transition-completion handler\<close>

text \<open>First frame: \<^verbatim>\<open>style.transition = 'transform 0.5s cubic-bezier(0,0,0.32,1)'\<close>
  for every planned key, then the second frame is requested.\<close>

definition transition_value :: string where
  "transition_value = ''transform 0.5s cubic-bezier(0,0,0.32,1)''"

fun arm_loop :: "key list \<Rightarrow> world \<Rightarrow> jserror + world" where
  "arm_loop [] w = Inr w"
| "arm_loop (key # keys) w =
     (case domNodes w key of
        None \<Rightarrow> Inl TypeError
      | Some n \<Rightarrow> arm_loop keys (set_transition n transition_value w))"

text \<open>Second frame: the end transform is written and a \<^verbatim>\<open>transitionend\<close> listener
  capturing the key is attached to the node.\<close>

fun run_loop :: "descriptor js_object \<Rightarrow> world \<Rightarrow> jserror + world" where
  "run_loop [] w = Inr w"
| "run_loop ((key, d) # rest) w =
     (case domNodes w key of
        None \<Rightarrow> Inl TypeError
      | Some n \<Rightarrow>
          (let w1 = set_transform n (snd d) w
           in run_loop rest
                (w1\<lparr>listeners := listeners w1 @ [(n, key)],
                    trace := trace w1 @ [AddEventListener n key]\<rparr>)))"

fun run_frame :: "frame_callback \<Rightarrow> world \<Rightarrow> jserror + world" where
  "run_frame (Frame1 animations') w =
     (case arm_loop (map fst animations') w of
        Inl e \<Rightarrow> Inl e
      | Inr w1 \<Rightarrow> Inr (requestAnimationFrame (Frame2 animations') w1))"
| "run_frame (Frame2 animations') w = run_loop animations' w"




section \<open>Rendering\<close>

text \<open>\<^verbatim>\<open>warning(condition, message)\<close> reports the message when the condition is false
  and returns.\<close>

definition warning :: "bool \<Rightarrow> string \<Rightarrow> world \<Rightarrow> world" where
  "warning condition message w =
     (if condition then w else w\<lparr>trace := trace w @ [Warning message]\<rparr>)"

definition string_ref_message :: string where
  "string_ref_message =
     ''string refs are not supported on children of AnimationGroup and will be ignored. '' @
     ''Please use a callback ref instead: https://facebook.github.io/react/docs/refs-and-the-dom.html#the-ref-callback-attribute''"

text \<open>\<^verbatim>\<open>chain(f, g)\<close> of \<^verbatim>\<open>chain-function\<close>: absent functions are dropped, the rest
  are called in order.\<close>

fun chain :: "ref \<Rightarrow> ref \<Rightarrow> ref" where
  "chain NoRef g = g"
| "chain f NoRef = f"
| "chain f g = Chained f g"

definition isCallbackRef :: "element \<Rightarrow> bool" where
  "isCallbackRef child = (case eref child of StringRef s \<Rightarrow> False | _ \<Rightarrow> True)"

text \<open>The ref given to the clone: the tracking callback, chained after the child's own
  ref only when the factory returned the child itself and the ref is not a string.\<close>

definition child_ref :: "element \<Rightarrow> key \<Rightarrow> element \<Rightarrow> ref" where
  "child_ref factoryChild key child =
     (if eid factoryChild = eid child \<and> isCallbackRef child
      then chain (eref child) (TrackRef key) else TrackRef key)"

text \<open>
  React calling a ref with the mounted instance (or \<^verbatim>\<open>null\<close>). The tracking callback
  is \<^verbatim>\<open>(r) => { this.childRefs[key] = r; }\<close>; a chained ref calls both functions in
  order; the owner's callbacks and string refs do not touch the component.
\<close>

fun call_ref :: "ref \<Rightarrow> refinst option \<Rightarrow> world \<Rightarrow> world" where
  "call_ref (TrackRef key) r w = w\<lparr>childRefs := (childRefs w)(key := r)\<rparr>"
| "call_ref (Chained f g) r w = call_ref g r (call_ref f r w)"
| "call_ref other r w = w"

text \<open>The body of the loop over \<^verbatim>\<open>this.state.children\<close>; calling a
  \<^verbatim>\<open>childFactory\<close> that is not a function throws.\<close>

fun render_children ::
  "propval option \<Rightarrow> child_mapping \<Rightarrow> key list \<Rightarrow> rendered_child list \<times> world \<Rightarrow>
   jserror + rendered_child list \<times> world" where
  "render_children childFactory cm [] s = Inr s"
| "render_children childFactory cm (key # keys) s =
     (case s of (childrenToRender, w) \<Rightarrow>
       (case map_of cm key of
          Some (Some child) \<Rightarrow>
            (case childFactory of
               Some (PFunction f) \<Rightarrow>
                 (let factoryChild = f child;
                      w1 = warning (isCallbackRef child) string_ref_message w
                  in render_children childFactory cm keys
                       (childrenToRender @
                          [CloneElement factoryChild key (child_ref factoryChild key child)],
                        w1))
             | _ \<Rightarrow> Inl TypeError)
        | _ \<Rightarrow> render_children childFactory cm keys s))"

text \<open>The option names deleted from the copy of the props, in the order of the
  \<^verbatim>\<open>delete\<close> statements.\<close>

definition internal_options :: "string list" where
  "internal_options =
     [''transitionLeave'', ''transitionName'', ''transitionAppear'', ''transitionEnter'',
      ''childFactory'', ''transitionLeaveTimeout'', ''transitionEnterTimeout'',
      ''transitionAppearTimeout'', ''component'']"

definition stripped_props :: "propval js_object \<Rightarrow> propval js_object" where
  "stripped_props ps =
     AList.delete ''component''
      (AList.delete ''transitionAppearTimeout''
        (AList.delete ''transitionEnterTimeout''
          (AList.delete ''transitionLeaveTimeout''
            (AList.delete ''childFactory''
              (AList.delete ''transitionEnter''
                (AList.delete ''transitionAppear''
                  (AList.delete ''transitionName''
                    (AList.delete ''transitionLeave'' ps))))))))"

definition render :: "world \<Rightarrow> jserror + rendered \<times> world" where
  "render w =
     (case render_children (map_of (pfields (props w)) ''childFactory'') (visible_children w)
             (map fst (visible_children w)) ([], w) of
        Inl e \<Rightarrow> Inl e
      | Inr (childrenToRender, w1) \<Rightarrow>
          Inr (CreateElement (map_of (pfields (props w)) ''component'')
                 (stripped_props (pfields (props w))) childrenToRender, w1))"

section \<open>A concrete update: three children, the middle one leaving\<close>

text \<open>
  The list \<^verbatim>\<open>{a, b, c}\<close> is updated to \<^verbatim>\<open>{a, c}\<close>. The children are 50 by 20
  boxes laid out left to right at 0, 60 and 120; a hidden node measures as all zeros and
  \<^verbatim>\<open>c\<close> moves to 60 once \<^verbatim>\<open>b\<close> is hidden. The animation of \<^verbatim>\<open>c\<close> from an
  earlier update is still in flight when the new props arrive.
\<close>

definition demo_env :: env where
  "demo_env =
     \<lparr>findDOMNode = (\<lambda>r. Some r),
      getBoundingClientRect = (\<lambda>sty n.
        if display (sty n) = ''none'' then (0, 0, 0, 0)
        else if n = 1 then (0, 0, 50, 20)
        else if n = 2 then (60, 0, 50, 20)
        else if display (sty 2) = ''none'' then (60, 0, 50, 20)
        else (120, 0, 50, 20)),
      getChildMapping = (\<lambda>c. case c of Some (PNodes es) \<Rightarrow> Some (map (\<lambda>e. (etype e, Some e)) es)
                                | _ \<Rightarrow> None),
      mergeChildMappings = (\<lambda>prev nxt.
        (case nxt of None \<Rightarrow> [] | Some m \<Rightarrow> m) @
        filter (\<lambda>(k, c). \<not> hasNext nxt k) (case prev of None \<Rightarrow> [] | Some m \<Rightarrow> m))\<rparr>"

definition demo_child :: "nat \<Rightarrow> string \<Rightarrow> ref \<Rightarrow> element" where
  "demo_child i name r = \<lparr>eid = i, etype = name, eref = r\<rparr>"

definition demo_children :: child_mapping where
  "demo_children =
     [(''a'', Some (demo_child 1 ''a'' NoRef)),
      (''b'', Some (demo_child 2 ''b'' (StringRef ''item''))),
      (''c'', Some (demo_child 3 ''c'' (CallbackRef 7)))]"

definition demo_props :: "nat \<Rightarrow> element list \<Rightarrow> props_obj" where
  "demo_props i es =
     \<lparr>pid = i,
      pfields = [(''component'', PComponent ''ul''),
                 (''childFactory'', PFunction (\<lambda>child. child)),
                 (''transitionName'', PString ''fade''),
                 (''transitionLeave'', PBool False),
                 (''className'', PString ''list''),
                 (''children'', PNodes es)]\<rparr>"

definition blank_style :: style where
  "blank_style = \<lparr>display = [], transition = [], transform = NoTransform\<rparr>"

text \<open>The world when \<^verbatim>\<open>componentDidUpdate\<close> is entered for the update to
  \<^verbatim>\<open>{a, c}\<close>.\<close>

definition demo_world :: world where
  "demo_world =
     \<lparr>props = demo_props 2 [demo_child 1 ''a'' NoRef, demo_child 3 ''c'' (CallbackRef 7)],
      state_children = Some 0,
      childRefs = [''a'' \<mapsto> 1, ''b'' \<mapsto> 2, ''c'' \<mapsto> 3],
      children = Some 0,
      leavingKeys = Some [(''b'', True)],
      animations = [(''c'', Cancel ''c'')],
      startingPositions = [''a'' \<mapsto> DOMRect 0 0 50 20, ''b'' \<mapsto> DOMRect 60 0 50 20,
                           ''c'' \<mapsto> DOMRect 120 0 50 20],
      realPositions = Map.empty,
      endingPositions = Map.empty,
      domNodes = [''a'' \<mapsto> 1, ''b'' \<mapsto> 2, ''c'' \<mapsto> 3],
      heap = (\<lambda>a. [])(0 := demo_children),
      next_addr = 1,
      styles = (\<lambda>n. blank_style)
                 (3 := \<lparr>display = [], transition = transition_value,
                         transform = Translate (Num 5) (Num 0)\<rparr>),
      listeners = [(3, ''c'')],
      frames = [],
      trace = []\<rparr>"

text \<open>The same world once the real and the ending snapshots have been taken.\<close>

definition demo_measured :: world where
  "demo_measured =
     demo_world
       \<lparr>realPositions := [''a'' \<mapsto> DOMRect 0 0 50 20, ''b'' \<mapsto> DOMRect 60 0 50 20,
                           ''c'' \<mapsto> DOMRect 120 0 50 20],
        endingPositions := [''a'' \<mapsto> DOMRect 0 0 50 20, ''b'' \<mapsto> DOMRect 0 0 0 0,
                             ''c'' \<mapsto> DOMRect 60 0 50 20]\<rparr>"

section \<open>Notions used to state the properties\<close>


text \<open>Every closure in the registry captured the key it is stored under, as
  \<^verbatim>\<open>this.animations[key] = () => { ... key ... }\<close> makes it.\<close>

definition registry_ok :: "cancel_op js_object \<Rightarrow> bool" where
  "registry_ok reg = list_all (\<lambda>(k, c). c = Cancel k) reg"

text \<open>The calls made by a cancel closure: its invocation and the two writes of the empty
  string.\<close>

fun is_cancel_event :: "event \<Rightarrow> bool" where
  "is_cancel_event (CancelInvoked k) = True"
| "is_cancel_event (SetTransition n v) = (v = [])"
| "is_cancel_event (SetTransform n t) = (t = NoTransform)"
| "is_cancel_event e = False"

fun is_translate_write :: "node \<Rightarrow> event \<Rightarrow> bool" where
  "is_translate_write n (SetTransform m (Translate x y)) = (m = n)"
| "is_translate_write n e = False"

text \<open>In a sequence of calls, a translation is written to the node before the cancel
  closure of the key is invoked (if it is invoked at all).\<close>

fun overwritten_uncancelled :: "key \<Rightarrow> node \<Rightarrow> event list \<Rightarrow> bool" where
  "overwritten_uncancelled key n [] = False"
| "overwritten_uncancelled key n (e # es) =
     (e \<noteq> CancelInvoked key \<and> (is_translate_write n e \<or> overwritten_uncancelled key n es))"


text \<open>The concrete update two frames later: \<^verbatim>\<open>b\<close> slides out and \<^verbatim>\<open>c\<close> slides to
  its place, both transitions running.\<close>

definition demo_running :: world where
  "demo_running =
     demo_measured
       \<lparr>animations := [(''b'', Cancel ''b''), (''c'', Cancel ''c'')],
        styles := (\<lambda>n. blank_style)
                    (2 := \<lparr>display = [], transition = transition_value,
                            transform = Translate (Num (- 110)) (Num 0)\<rparr>,
                     3 := \<lparr>display = [], transition = transition_value,
                            transform = Translate (Num (- 60)) (Num 0)\<rparr>),
        listeners := [(3, ''c''), (2, ''b''), (3, ''c'')]\<rparr>"

section \<open>Properties of the planner\<close>

lemma strict_neq_iff: "a \<noteq> NaN \<or> b \<noteq> NaN \<Longrightarrow> strict_neq a b \<longleftrightarrow> a \<noteq> b"
  by (cases a; cases b) auto

lemma get_left_not_NaN: "get_left r \<noteq> NaN"
  by (cases r) auto

lemma get_top_not_NaN: "get_top r \<noteq> NaN"
  by (cases r) auto

text \<open>The four strict comparisons of the planner decide whether the start position, the
  end position and the real position are one and the same pair.\<close>

lemma plan_key_iff:
  "plan_key first' real' last' =
     (if resolve_position first' real' = resolve_position last' real' \<and>
         resolve_position last' real' = (get_left real', get_top real')
      then None
      else Some (Translate (js_sub (fst (resolve_position first' real')) (get_left real'))
                           (js_sub (snd (resolve_position first' real')) (get_top real')),
                 Translate (js_sub (fst (resolve_position last' real')) (get_left real'))
                           (js_sub (snd (resolve_position last' real')) (get_top real'))))"
proof -
  obtain sl st where s: "resolve_position first' real' = (sl, st)"
    by (cases "resolve_position first' real'")
  obtain el et where e: "resolve_position last' real' = (el, et)"
    by (cases "resolve_position last' real'")
  have 1: "strict_neq el (get_left real') \<longleftrightarrow> el \<noteq> get_left real'"
    by (rule strict_neq_iff) (simp add: get_left_not_NaN)
  have 2: "strict_neq et (get_top real') \<longleftrightarrow> et \<noteq> get_top real'"
    by (rule strict_neq_iff) (simp add: get_top_not_NaN)
  have 3: "el = get_left real' \<Longrightarrow> strict_neq sl el \<longleftrightarrow> sl \<noteq> el"
    by (rule strict_neq_iff) (simp add: get_left_not_NaN)
  have 4: "et = get_top real' \<Longrightarrow> strict_neq st et \<longleftrightarrow> st \<noteq> et"
    by (rule strict_neq_iff) (simp add: get_top_not_NaN)
  have 5: "strict_neq sl el \<Longrightarrow> sl \<noteq> el \<or> el \<noteq> get_left real'"
    using 3 by blast
  have 6: "strict_neq st et \<Longrightarrow> st \<noteq> et \<or> et \<noteq> get_top real'"
    using 4 by blast
  show ?thesis
    unfolding plan_key_def s e using 1 2 3 4 5 6 by auto
qed

lemma resolve_zero_sized:
  "resolve_position (DOMRect fl ft 0 0) (DOMRect l t wd h) = (Num (- wd), Num t)"
  by (simp add: resolve_position_def)

text \<open>The planning loop returns when every visited key has its three snapshots, and the
  object it builds holds, for a visited key, exactly what \<open>plan_key\<close> gives.\<close>

lemma calculate_loop_lookup:
  assumes "\<forall>k\<in>set ks. startingPositions w k \<noteq> None \<and> realPositions w k \<noteq> None \<and>
             endingPositions w k \<noteq> None"
  shows "\<exists>r. calculate_loop w ks acc = Inr r \<and>
           (\<forall>k. map_of r k =
              (if k \<in> set ks
               then (case plan_key (the (startingPositions w k)) (the (realPositions w k))
                                (the (endingPositions w k)) of
                       None \<Rightarrow> map_of acc k | Some d \<Rightarrow> Some d)
               else map_of acc k))"
  using assms
proof (induction ks arbitrary: acc)
  case Nil
  then show ?case by simp
next
  case (Cons key ks)
  from Cons.prems obtain f r l where
    snaps: "startingPositions w key = Some f" "realPositions w key = Some r"
           "endingPositions w key = Some l"
    by auto
  let ?acc = "(case plan_key f r l of None \<Rightarrow> acc | Some d \<Rightarrow> AList.update key d acc)"
  from Cons.prems have rest: "\<forall>k\<in>set ks. startingPositions w k \<noteq> None \<and>
      realPositions w k \<noteq> None \<and> endingPositions w k \<noteq> None" by simp
  from Cons.IH[OF rest, of ?acc] obtain res where
    res: "calculate_loop w ks ?acc = Inr res"
    and look: "\<forall>k. map_of res k =
              (if k \<in> set ks
               then (case plan_key (the (startingPositions w k)) (the (realPositions w k))
                                (the (endingPositions w k)) of
                       None \<Rightarrow> map_of ?acc k | Some d \<Rightarrow> Some d)
               else map_of ?acc k)" by blast
  have "calculate_loop w (key # ks) acc = Inr res"
    using res snaps by simp
  moreover have "\<forall>k. map_of res k =
              (if k \<in> set (key # ks)
               then (case plan_key (the (startingPositions w k)) (the (realPositions w k))
                                (the (endingPositions w k)) of
                       None \<Rightarrow> map_of acc k | Some d \<Rightarrow> Some d)
               else map_of acc k)"
    using look snaps by (auto simp: update_conv' split: option.splits)
  ultimately show ?case by blast
qed

lemma calculate_animations_lookup:
  assumes "\<forall>k\<in>set (for_in_children w). startingPositions w k \<noteq> None \<and>
             realPositions w k \<noteq> None \<and> endingPositions w k \<noteq> None"
  shows "\<exists>r. calculate_animations w = Inr r \<and>
           (\<forall>k. map_of r k =
              (if k \<in> set (for_in_children w)
               then plan_key (the (startingPositions w k)) (the (realPositions w k))
                      (the (endingPositions w k))
               else None))"
proof -
  from calculate_loop_lookup[OF assms, of "[]"] obtain r where
    r: "calculate_loop w (for_in_children w) [] = Inr r"
    and look: "\<forall>k. map_of r k =
              (if k \<in> set (for_in_children w)
               then (case plan_key (the (startingPositions w k)) (the (realPositions w k))
                                (the (endingPositions w k)) of
                       None \<Rightarrow> map_of [] k | Some d \<Rightarrow> Some d)
               else map_of [] k)" by blast
  have "\<forall>k. map_of r k =
              (if k \<in> set (for_in_children w)
               then plan_key (the (startingPositions w k)) (the (realPositions w k))
                      (the (endingPositions w k))
               else None)"
    using look by (auto split: option.splits)
  with r show ?thesis by (auto simp: calculate_animations_def)
qed

lemma demo_measured_snapshots:
  "\<forall>k\<in>set (for_in_children demo_measured). startingPositions demo_measured k \<noteq> None \<and>
      realPositions demo_measured k \<noteq> None \<and> endingPositions demo_measured k \<noteq> None"
  by (simp add: demo_measured_def demo_world_def for_in_children_def demo_children_def)

text \<open>
  C1. When every key of the merged mapping has its three snapshots, the planning loop
  returns, and for each such key the object it returns has a descriptor exactly when the
  resolved start position, the resolved end position and the real position are not all
  equal; the descriptor's start transform translates by (startLeft - real.left,
  startTop - real.top) and its end transform by (endLeft - real.left, endTop - real.top).
  When the three positions are equal the key has no descriptor.
\<close>

theorem planner_descriptor_iff_positions_differ:
  assumes "\<forall>k\<in>set (for_in_children w). startingPositions w k \<noteq> None \<and>
             realPositions w k \<noteq> None \<and> endingPositions w k \<noteq> None"
  shows "\<exists>animations'. calculate_animations w = Inr animations' \<and>
           (\<forall>k\<in>set (for_in_children w). \<forall>first' real' last'.
              startingPositions w k = Some first' \<longrightarrow>
              realPositions w k = Some real' \<longrightarrow>
              endingPositions w k = Some last' \<longrightarrow>
              map_of animations' k =
                (if resolve_position first' real' = resolve_position last' real' \<and>
                    resolve_position last' real' = (get_left real', get_top real')
                 then None
                 else Some
                   (Translate (js_sub (fst (resolve_position first' real')) (get_left real'))
                              (js_sub (snd (resolve_position first' real')) (get_top real')),
                    Translate (js_sub (fst (resolve_position last' real')) (get_left real'))
                              (js_sub (snd (resolve_position last' real')) (get_top real')))))"
proof -
  from calculate_animations_lookup[OF assms] obtain r where
    r: "calculate_animations w = Inr r"
    and look: "\<forall>k. map_of r k =
              (if k \<in> set (for_in_children w)
               then plan_key (the (startingPositions w k)) (the (realPositions w k))
                      (the (endingPositions w k))
               else None)" by blast
  show ?thesis
  proof (intro exI conjI ballI allI impI)
    show "calculate_animations w = Inr r" by (rule r)
  next
    fix k first' real' last'
    assume "k \<in> set (for_in_children w)" "startingPositions w k = Some first'"
      "realPositions w k = Some real'" "endingPositions w k = Some last'"
    then have "map_of r k = plan_key first' real' last'"
      using look by simp
    then show "map_of r k =
                (if resolve_position first' real' = resolve_position last' real' \<and>
                    resolve_position last' real' = (get_left real', get_top real')
                 then None
                 else Some
                   (Translate (js_sub (fst (resolve_position first' real')) (get_left real'))
                              (js_sub (snd (resolve_position first' real')) (get_top real')),
                    Translate (js_sub (fst (resolve_position last' real')) (get_left real'))
                              (js_sub (snd (resolve_position last' real')) (get_top real'))))"
      by (simp only: plan_key_iff)
  qed
qed

theorem planner_descriptor_iff_positions_differ_witness:
  "\<exists>animations'. calculate_animations demo_measured = Inr animations' \<and>
     map_of animations' ''a'' = None \<and>
     map_of animations' ''c'' =
       Some (Translate (Num 0) (Num 0), Translate (Num (- 60)) (Num 0))"
proof -
  from planner_descriptor_iff_positions_differ[OF demo_measured_snapshots] obtain an where
    an: "calculate_animations demo_measured = Inr an"
    and look: "\<forall>k\<in>set (for_in_children demo_measured). \<forall>first' real' last'.
              startingPositions demo_measured k = Some first' \<longrightarrow>
              realPositions demo_measured k = Some real' \<longrightarrow>
              endingPositions demo_measured k = Some last' \<longrightarrow>
              map_of an k =
                (if resolve_position first' real' = resolve_position last' real' \<and>
                    resolve_position last' real' = (get_left real', get_top real')
                 then None
                 else Some
                   (Translate (js_sub (fst (resolve_position first' real')) (get_left real'))
                              (js_sub (snd (resolve_position first' real')) (get_top real')),
                    Translate (js_sub (fst (resolve_position last' real')) (get_left real'))
                              (js_sub (snd (resolve_position last' real')) (get_top real'))))"
    by blast
  have keys: "''a'' \<in> set (for_in_children demo_measured)"
    "''c'' \<in> set (for_in_children demo_measured)"
    by (simp_all add: demo_measured_def demo_world_def for_in_children_def demo_children_def)
  have a: "map_of an ''a'' = None"
    using look[rule_format, OF keys(1), of "DOMRect 0 0 50 20" "DOMRect 0 0 50 20"
        "DOMRect 0 0 50 20"]
    by (simp add: demo_measured_def demo_world_def resolve_position_def)
  have c: "map_of an ''c'' = Some (Translate (Num 0) (Num 0), Translate (Num (- 60)) (Num 0))"
    using look[rule_format, OF keys(2), of "DOMRect 120 0 50 20" "DOMRect 120 0 50 20"
        "DOMRect 60 0 50 20"]
    by (simp add: demo_measured_def demo_world_def resolve_position_def)
  from an a c show ?thesis by blast
qed

text \<open>
  C5. A key of the merged mapping whose starting, real and ending snapshots are the same
  rectangle, not zero-sized (its width or its height is not zero), gets no descriptor.
\<close>

theorem unchanged_geometry_no_descriptor:
  assumes "\<forall>k\<in>set (for_in_children w). startingPositions w k \<noteq> None \<and>
             realPositions w k \<noteq> None \<and> endingPositions w k \<noteq> None"
    and "key \<in> set (for_in_children w)"
    and "startingPositions w key = Some (DOMRect l t wd h)"
    and "realPositions w key = Some (DOMRect l t wd h)"
    and "endingPositions w key = Some (DOMRect l t wd h)"
    and "wd \<noteq> 0 \<or> h \<noteq> 0"
  shows "\<exists>animations'. calculate_animations w = Inr animations' \<and> map_of animations' key = None"
proof -
  from calculate_animations_lookup[OF assms(1)] obtain r where
    r: "calculate_animations w = Inr r"
    and look: "\<forall>k. map_of r k =
              (if k \<in> set (for_in_children w)
               then plan_key (the (startingPositions w k)) (the (realPositions w k))
                      (the (endingPositions w k))
               else None)" by blast
  have "plan_key (DOMRect l t wd h) (DOMRect l t wd h) (DOMRect l t wd h) = None"
    using assms(6) by (auto simp: plan_key_def resolve_position_def)
  then have "map_of r key = None"
    using look assms(2-5) by simp
  with r show ?thesis by blast
qed

theorem unchanged_geometry_no_descriptor_witness:
  "\<exists>animations'. calculate_animations demo_measured = Inr animations' \<and>
     map_of animations' ''a'' = None"
proof (rule unchanged_geometry_no_descriptor[OF demo_measured_snapshots,
      where l = 0 and t = 0 and wd = 50 and h = 20])
  show "''a'' \<in> set (for_in_children demo_measured)"
    by (simp add: demo_measured_def demo_world_def for_in_children_def demo_children_def)
  show "startingPositions demo_measured ''a'' = Some (DOMRect 0 0 50 20)"
    by (simp add: demo_measured_def demo_world_def)
  show "realPositions demo_measured ''a'' = Some (DOMRect 0 0 50 20)"
    by (simp add: demo_measured_def demo_world_def)
  show "endingPositions demo_measured ''a'' = Some (DOMRect 0 0 50 20)"
    by (simp add: demo_measured_def demo_world_def)
  show "(50::real) \<noteq> 0 \<or> (20::real) \<noteq> 0" by simp
qed

text \<open>
  C2, as stated: the off-stage left coordinate would be real.left - real.width. For a
  zero-sized starting snapshot and a real rectangle at left 100 of width 30 the code
  resolves the start to left -30, not 70, and the start transform translates by -130.
\<close>

theorem offstage_left_counterexample:
  "resolve_position (DOMRect 0 0 0 0) (DOMRect 100 50 30 20) = (Num (- 30), Num 50) \<and>
   resolve_position (DOMRect 0 0 0 0) (DOMRect 100 50 30 20) \<noteq>
     (js_sub (get_left (DOMRect 100 50 30 20)) (get_width (DOMRect 100 50 30 20)),
      get_top (DOMRect 100 50 30 20)) \<and>
   plan_key (DOMRect 0 0 0 0) (DOMRect 100 50 30 20) (DOMRect 100 50 30 20) =
     Some (Translate (Num (- 130)) (Num 0), Translate (Num 0) (Num 0))"
  by (simp add: resolve_position_def plan_key_def)

text \<open>
  C2, amended. For a starting (respectively ending) snapshot whose height and width both
  read as falsy (a measured rectangle of zero width and zero height, or the empty object
  stored for a key without a node), the start (respectively end) position is
  (real.width * -1, real.top): the left coordinate is the negated real width, whatever
  real.left is. The planner uses it as the start (respectively end) position: with a
  measured real rectangle the corresponding transform translates by
  (- real.width - real.left, 0).
\<close>

theorem offstage_position_is_negated_width:
  assumes "js_not (get_height snap)" and "js_not (get_width snap)"
  shows "resolve_position snap real' = (js_mul (get_width real') (Num (- 1)), get_top real') \<and>
   resolve_position snap (DOMRect l t wd h) = (Num (- wd), Num t) \<and>
   plan_key snap (DOMRect l t wd h) last' =
     (if (Num (- wd), Num t) = resolve_position last' (DOMRect l t wd h) \<and>
         resolve_position last' (DOMRect l t wd h) = (Num l, Num t)
      then None
      else Some (Translate (Num (- wd - l)) (Num 0),
                 Translate (js_sub (fst (resolve_position last' (DOMRect l t wd h))) (Num l))
                           (js_sub (snd (resolve_position last' (DOMRect l t wd h))) (Num t)))) \<and>
   plan_key first' (DOMRect l t wd h) snap =
     (if resolve_position first' (DOMRect l t wd h) = (Num (- wd), Num t) \<and>
         (Num (- wd), Num t) = (Num l, Num t)
      then None
      else Some (Translate (js_sub (fst (resolve_position first' (DOMRect l t wd h))) (Num l))
                           (js_sub (snd (resolve_position first' (DOMRect l t wd h))) (Num t)),
                 Translate (Num (- wd - l)) (Num 0)))"
proof (intro conjI)
  show "resolve_position snap real' = (js_mul (get_width real') (Num (- 1)), get_top real')"
    using assms by (simp add: resolve_position_def)
  have off: "resolve_position snap (DOMRect l t wd h) = (Num (- wd), Num t)"
    using assms by (simp add: resolve_position_def)
  show "resolve_position snap (DOMRect l t wd h) = (Num (- wd), Num t)" by (rule off)
  show "plan_key snap (DOMRect l t wd h) last' =
     (if (Num (- wd), Num t) = resolve_position last' (DOMRect l t wd h) \<and>
         resolve_position last' (DOMRect l t wd h) = (Num l, Num t)
      then None
      else Some (Translate (Num (- wd - l)) (Num 0),
                 Translate (js_sub (fst (resolve_position last' (DOMRect l t wd h))) (Num l))
                           (js_sub (snd (resolve_position last' (DOMRect l t wd h))) (Num t))))"
    unfolding plan_key_iff[of snap] off by simp
  show "plan_key first' (DOMRect l t wd h) snap =
     (if resolve_position first' (DOMRect l t wd h) = (Num (- wd), Num t) \<and>
         (Num (- wd), Num t) = (Num l, Num t)
      then None
      else Some (Translate (js_sub (fst (resolve_position first' (DOMRect l t wd h))) (Num l))
                           (js_sub (snd (resolve_position first' (DOMRect l t wd h))) (Num t)),
                 Translate (Num (- wd - l)) (Num 0)))"
    unfolding plan_key_iff[of _ _ snap] off by simp
qed

text \<open>An entering child: no node before the update, hence the empty object as starting
  snapshot; it starts at left -30 although its real left is 100, and slides by 130.\<close>

theorem offstage_position_is_negated_width_witness:
  "resolve_position EmptyObject (DOMRect 100 50 30 20) = (Num (- 30), Num 50) \<and>
   plan_key EmptyObject (DOMRect 100 50 30 20) (DOMRect 100 50 30 20) =
     Some (Translate (Num (- 130)) (Num 0), Translate (Num 0) (Num 0))"
proof -
  have a: "js_not (get_height EmptyObject)" and b: "js_not (get_width EmptyObject)"
    by simp_all
  have last: "resolve_position (DOMRect 100 50 30 20) (DOMRect 100 50 30 20) = (Num 100, Num 50)"
    by (simp add: resolve_position_def)
  from offstage_position_is_negated_width[OF a b, of "DOMRect 100 50 30 20" 100 50 30 20
      "DOMRect 100 50 30 20" "DOMRect 100 50 30 20"]
  have "resolve_position EmptyObject (DOMRect 100 50 30 20) = (Num (- 30), Num 50)"
    and "plan_key EmptyObject (DOMRect 100 50 30 20) (DOMRect 100 50 30 20) =
     (if (Num (- 30), Num 50) = resolve_position (DOMRect 100 50 30 20) (DOMRect 100 50 30 20) \<and>
         resolve_position (DOMRect 100 50 30 20) (DOMRect 100 50 30 20) = (Num 100, Num 50)
      then None
      else Some (Translate (Num (- 30 - 100)) (Num 0),
                 Translate (js_sub (fst (resolve_position (DOMRect 100 50 30 20) (DOMRect 100 50 30 20))) (Num 100))
                           (js_sub (snd (resolve_position (DOMRect 100 50 30 20) (DOMRect 100 50 30 20))) (Num 50))))"
    by blast+
  then show ?thesis unfolding last by simp
qed

section \<open>Properties of rendering\<close>

text \<open>What the loop of \<open>render\<close> pushes and reports for one key.\<close>

lemma render_children_result:
  assumes "childFactory = Some (PFunction f)"
  shows "render_children childFactory cm ks (acc, w) =
     Inr (acc @ concat (map (\<lambda>k. case map_of cm k of
                                    Some (Some c) \<Rightarrow> [CloneElement (f c) k (child_ref (f c) k c)]
                                  | _ \<Rightarrow> []) ks),
          w\<lparr>trace := trace w @ concat (map (\<lambda>k. case map_of cm k of
                                    Some (Some c) \<Rightarrow>
                                      if isCallbackRef c then [] else [Warning string_ref_message]
                                  | _ \<Rightarrow> []) ks)\<rparr>)"
proof (induction ks arbitrary: acc w)
  case Nil
  then show ?case by simp
next
  case (Cons k ks)
  show ?case
  proof (cases "map_of cm k")
    case None
    then show ?thesis using Cons.IH[of acc w] by simp
  next
    case (Some oc)
    show ?thesis
    proof (cases oc)
      case None
      with Some show ?thesis using Cons.IH[of acc w] by simp
    next
      case (Some c)
      with \<open>map_of cm k = Some oc\<close> have look: "map_of cm k = Some (Some c)" by simp
      show ?thesis
        using look assms
          Cons.IH[of "acc @ [CloneElement (f c) k (child_ref (f c) k c)]"
                     "warning (isCallbackRef c) string_ref_message w"]
        by (simp add: warning_def Let_def)
    qed
  qed
qed

lemma map_of_fold_delete:
  "map_of (fold AList.delete ks ps) k = (if k \<in> set ks then None else map_of ps k)"
  by (induction ks arbitrary: ps) (auto simp: delete_conv')

lemma stripped_props_fold: "stripped_props ps = fold AList.delete internal_options ps"
  by (simp only: stripped_props_def internal_options_def fold_simps id_apply o_apply)

lemma map_of_stripped_props:
  "map_of (stripped_props ps) k = (if k \<in> set internal_options then None else map_of ps k)"
  by (simp only: stripped_props_fold map_of_fold_delete)

text \<open>Enumerating the keys of an object and reading each is the same as walking its
  entries, keys being unique.\<close>

lemma for_in_lookup:
  "distinct (map fst xs) \<Longrightarrow>
     map (\<lambda>k. g k (map_of xs k)) (map fst xs) = map (\<lambda>(k, v). g k (Some v)) xs"
proof (induction xs)
  case Nil
  then show ?case by simp
next
  case (Cons x xs)
  obtain a b where x: "x = (a, b)" by (cases x)
  from Cons.prems x have fresh: "a \<notin> fst ` set xs" and d: "distinct (map fst xs)" by auto
  have "map (\<lambda>k. g k (map_of (x # xs) k)) (map fst xs) = map (\<lambda>k. g k (map_of xs k)) (map fst xs)"
    using fresh x by (intro map_cong) auto
  then show ?case using Cons.IH[OF d] x by simp
qed

lemma in_concat_mapI: "k \<in> set ks \<Longrightarrow> x \<in> set (g k) \<Longrightarrow> x \<in> set (concat (map g ks))"
  by auto

lemma render_result:
  assumes "map_of (pfields (props w)) ''childFactory'' = Some (PFunction f)"
  shows "render w =
     Inr (CreateElement (map_of (pfields (props w)) ''component'')
            (stripped_props (pfields (props w)))
            (concat (map (\<lambda>k. case map_of (visible_children w) k of
                                    Some (Some c) \<Rightarrow> [CloneElement (f c) k (child_ref (f c) k c)]
                                  | _ \<Rightarrow> []) (map fst (visible_children w)))),
          w\<lparr>trace := trace w @ concat (map (\<lambda>k. case map_of (visible_children w) k of
                                    Some (Some c) \<Rightarrow>
                                      if isCallbackRef c then [] else [Warning string_ref_message]
                                  | _ \<Rightarrow> []) (map fst (visible_children w)))\<rparr>)"
  unfolding render_def render_children_result[OF assms] by simp

lemma demo_childFactory:
  "map_of (pfields (props demo_world)) ''childFactory'' = Some (PFunction (\<lambda>child. child))"
  by (simp add: demo_world_def demo_props_def)

text \<open>
  C7, as stated: the geometry tracking of a string-ref child would degrade (no animation
  for its key). On the concrete list, the child \<^verbatim>\<open>b\<close> has a string ref and its clone
  carries the tracking ref, as the clone of the ref-less \<^verbatim>\<open>a\<close> does; once React has
  called that ref, the node of \<^verbatim>\<open>b\<close> is resolved and measured, and the pass after
  the update plans an animation for \<^verbatim>\<open>b\<close>.
\<close>

theorem string_ref_tracking_counterexample:
  "map_sum id (\<lambda>(r, w'). case r of CreateElement t ps kids \<Rightarrow> kids) (render demo_world) =
     Inr [CloneElement (demo_child 1 ''a'' NoRef) ''a'' (TrackRef ''a''),
          CloneElement (demo_child 2 ''b'' (StringRef ''item'')) ''b'' (TrackRef ''b''),
          CloneElement (demo_child 3 ''c'' (CallbackRef 7)) ''c''
            (Chained (CallbackRef 7) (TrackRef ''c''))] \<and>
   startingPositions
     (componentWillUpdate demo_env
        (call_ref (TrackRef ''b'') (Some 2)
           (demo_world\<lparr>childRefs := Map.empty, domNodes := Map.empty\<rparr>))) ''b'' =
     Some (DOMRect 60 0 50 20) \<and>
   map_sum id frames (componentDidUpdate demo_env (demo_props 1 []) demo_world) =
     Inr [Frame1 [(''b'', Translate (Num 0) (Num 0), Translate (Num (- 110)) (Num 0)),
                  (''c'', Translate (Num 0) (Num 0), Translate (Num (- 60)) (Num 0))]]"
proof (intro conjI)
  show "map_sum id (\<lambda>(r, w'). case r of CreateElement t ps kids \<Rightarrow> kids) (render demo_world) =
     Inr [CloneElement (demo_child 1 ''a'' NoRef) ''a'' (TrackRef ''a''),
          CloneElement (demo_child 2 ''b'' (StringRef ''item'')) ''b'' (TrackRef ''b''),
          CloneElement (demo_child 3 ''c'' (CallbackRef 7)) ''c''
            (Chained (CallbackRef 7) (TrackRef ''c''))]"
    by (simp add: render_def visible_children_def demo_world_def demo_children_def
        demo_props_def demo_child_def child_ref_def isCallbackRef_def warning_def Let_def)
  show "startingPositions
     (componentWillUpdate demo_env
        (call_ref (TrackRef ''b'') (Some 2)
           (demo_world\<lparr>childRefs := Map.empty, domNodes := Map.empty\<rparr>))) ''b'' =
     Some (DOMRect 60 0 50 20)"
    by (simp add: componentWillUpdate_def updateDomNodes_def for_in_children_def
        demo_world_def demo_children_def demo_env_def capture_starting_def measure_node_def
        blank_style_def Let_def)
  show "map_sum id frames (componentDidUpdate demo_env (demo_props 1 []) demo_world) =
     Inr [Frame1 [(''b'', Translate (Num 0) (Num 0), Translate (Num (- 110)) (Num 0)),
                  (''c'', Translate (Num 0) (Num 0), Translate (Num (- 60)) (Num 0))]]"
    by (simp add: componentDidUpdate_def measure_and_animate_def updateDomNodes_def
      for_in_children_def demo_world_def demo_children_def demo_env_def demo_props_def
      cancel_all_def set_transition_def set_transform_def set_display_def Let_def
      capture_real_def capture_ending_def measure_node_def hide_leaving_def hide_step_def
      for_in_leavingKeys_def calculate_animations_def plan_key_def resolve_position_def
      requestAnimationFrame_def blank_style_def transition_value_def)
qed

text \<open>
  C7, amended. A child of the visible mapping whose ref is a string: rendering returns (it
  does not throw), reports the string-ref warning, changes nothing else, and the wrapping
  element holds the clone of the factory's result for that key; every clone for that
  key carries the component's tracking ref alone, not chained with the string ref. That
  is the ref a child without a ref gets, and calling it records the instance under the
  key in \<^verbatim>\<open>this.childRefs\<close>: the owner's ref is dropped, the tracking is not.
\<close>

theorem string_ref_child_warned_and_rendered:
  assumes "map_of (pfields (props w)) ''childFactory'' = Some (PFunction f)"
    and "map_of (visible_children w) key = Some (Some child)"
    and "eref child = StringRef s"
  shows "\<exists>t ps kids w'. render w = Inr (CreateElement t ps kids, w') \<and>
           Warning string_ref_message \<in> set (drop (length (trace w)) (trace w')) \<and>
           w' = w\<lparr>trace := trace w'\<rparr> \<and>
           CloneElement (f child) key (TrackRef key) \<in> set kids \<and>
           (\<forall>e r. CloneElement e key r \<in> set kids \<longrightarrow> e = f child \<and> r = TrackRef key) \<and>
           (\<forall>c fc. eref c = NoRef \<longrightarrow> child_ref fc key c = TrackRef key) \<and>
           (\<forall>r. childRefs (call_ref (TrackRef key) r w') key = r)"
proof -
  let ?cm = "visible_children w"
  let ?g = "\<lambda>k. case map_of ?cm k of
                  Some (Some c) \<Rightarrow> [CloneElement (f c) k (child_ref (f c) k c)] | _ \<Rightarrow> []"
  let ?h = "\<lambda>k. case map_of ?cm k of
                  Some (Some c) \<Rightarrow> if isCallbackRef c then [] else [Warning string_ref_message]
                | _ \<Rightarrow> []"
  let ?kids = "concat (map ?g (map fst ?cm))"
  let ?w' = "w\<lparr>trace := trace w @ concat (map ?h (map fst ?cm))\<rparr>"
  have r: "render w = Inr (CreateElement (map_of (pfields (props w)) ''component'')
                             (stripped_props (pfields (props w))) ?kids, ?w')"
    by (rule render_result[OF assms(1)])
  have key: "key \<in> set (map fst ?cm)"
    using assms(2) by (metis map_of_SomeD fst_conv image_eqI set_map)
  have nocb: "\<not> isCallbackRef child"
    using assms(3) by (simp add: isCallbackRef_def)
  have gk: "?g key = [CloneElement (f child) key (TrackRef key)]"
    using assms(2) nocb by (simp add: child_ref_def)
  have hk: "?h key = [Warning string_ref_message]"
    using assms(2) nocb by simp
  have "Warning string_ref_message \<in> set (concat (map ?h (map fst ?cm)))"
    by (rule in_concat_mapI[OF key]) (simp only: hk list.set_intros)
  moreover have "drop (length (trace w)) (trace ?w') = concat (map ?h (map fst ?cm))"
    by simp
  ultimately have warn: "Warning string_ref_message \<in> set (drop (length (trace w)) (trace ?w'))"
    by (simp only:)
  have inkids: "CloneElement (f child) key (TrackRef key) \<in> set ?kids"
    by (rule in_concat_mapI[OF key]) (simp only: gk list.set_intros)
  have only: "\<forall>e r. CloneElement e key r \<in> set ?kids \<longrightarrow> e = f child \<and> r = TrackRef key"
  proof (intro allI impI)
    fix e r
    assume "CloneElement e key r \<in> set ?kids"
    then obtain k where k: "CloneElement e key r \<in> set (?g k)" by auto
    then have kk: "k = key" by (auto split: option.splits)
    from k have "CloneElement e key r \<in> set (?g key)" unfolding kk .
    then have "CloneElement e key r \<in> set [CloneElement (f child) key (TrackRef key)]"
      unfolding gk .
    then show "e = f child \<and> r = TrackRef key" by simp
  qed
  have frame: "?w' = w\<lparr>trace := trace ?w'\<rparr>" by simp
  have refless: "\<forall>c fc. eref c = NoRef \<longrightarrow> child_ref fc key c = TrackRef key"
    by (simp add: child_ref_def)
  have called: "\<forall>r. childRefs (call_ref (TrackRef key) r ?w') key = r"
    by simp
  show ?thesis
    apply (rule exI[of _ "map_of (pfields (props w)) ''component''"])
    apply (rule exI[of _ "stripped_props (pfields (props w))"])
    apply (rule exI[of _ "?kids"])
    apply (rule exI[of _ "?w'"])
    apply (intro conjI)
        apply (rule r)
       apply (rule warn)
      apply (rule frame)
       apply (rule inkids)
      apply (rule only)
     apply (rule refless)
    apply (rule called)
    done
qed

theorem string_ref_child_warned_and_rendered_witness:
  "\<exists>t ps kids w'. render demo_world = Inr (CreateElement t ps kids, w') \<and>
     Warning string_ref_message \<in> set (drop (length (trace demo_world)) (trace w')) \<and>
     w' = demo_world\<lparr>trace := trace w'\<rparr> \<and>
     CloneElement ((\<lambda>child. child) (demo_child 2 ''b'' (StringRef ''item''))) ''b''
       (TrackRef ''b'') \<in> set kids \<and>
     (\<forall>e r. CloneElement e ''b'' r \<in> set kids \<longrightarrow>
        e = (\<lambda>child. child) (demo_child 2 ''b'' (StringRef ''item'')) \<and> r = TrackRef ''b'') \<and>
     (\<forall>c fc. eref c = NoRef \<longrightarrow> child_ref fc ''b'' c = TrackRef ''b'') \<and>
     (\<forall>r. childRefs (call_ref (TrackRef ''b'') r w') ''b'' = r)"
proof (rule string_ref_child_warned_and_rendered[OF demo_childFactory, where s = "''item''"])
  show "map_of (visible_children demo_world) ''b'' =
          Some (Some (demo_child 2 ''b'' (StringRef ''item'')))"
    by (simp add: demo_world_def visible_children_def demo_children_def)
  show "eref (demo_child 2 ''b'' (StringRef ''item'')) = StringRef ''item''"
    by (simp add: demo_child_def)
qed

text \<open>
  C8. Rendering returns one wrapping element of the configured component type. The props
  passed to it are the component's props without the internal options (component,
  childFactory and the seven transition options): none of those names is a key of the
  forwarded object, and every other prop is forwarded unchanged. Its children are the
  clones, keyed and given their ref, of the factory's result for every child of the
  visible mapping, in order; after new props that mapping is the merged one.
\<close>

theorem render_strips_internal_options:
  assumes "map_of (pfields (props w)) ''childFactory'' = Some (PFunction f)"
    and "distinct (map fst (visible_children w))"
  shows "\<exists>forwarded kids w'.
           render w = Inr (CreateElement (map_of (pfields (props w)) ''component'')
                             forwarded kids, w') \<and>
           set internal_options \<inter> fst ` set forwarded = {} \<and>
           (\<forall>k. map_of forwarded k =
                  (if k \<in> set internal_options then None else map_of (pfields (props w)) k)) \<and>
           kids = concat (map (\<lambda>(k, v). case v of
                                   Some c \<Rightarrow> [CloneElement (f c) k (child_ref (f c) k c)]
                                 | None \<Rightarrow> []) (visible_children w)) \<and>
           visible_children (componentWillReceiveProps E nextProps w) =
             mergeChildMappings E
               (case state_children w of None \<Rightarrow> None | Some a \<Rightarrow> Some (heap w a))
               (getChildMapping E (map_of (pfields nextProps) ''children''))"
proof -
  let ?cm = "visible_children w"
  let ?fw = "stripped_props (pfields (props w))"
  have r: "render w =
     Inr (CreateElement (map_of (pfields (props w)) ''component'') ?fw
            (concat (map (\<lambda>k. case map_of ?cm k of
                                    Some (Some c) \<Rightarrow> [CloneElement (f c) k (child_ref (f c) k c)]
                                  | _ \<Rightarrow> []) (map fst ?cm))),
          w\<lparr>trace := trace w @ concat (map (\<lambda>k. case map_of ?cm k of
                                    Some (Some c) \<Rightarrow>
                                      if isCallbackRef c then [] else [Warning string_ref_message]
                                  | _ \<Rightarrow> []) (map fst ?cm))\<rparr>)"
    by (rule render_result[OF assms(1)])
  have look: "\<forall>k. map_of ?fw k =
                  (if k \<in> set internal_options then None else map_of (pfields (props w)) k)"
    by (simp only: map_of_stripped_props) simp
  have none: "set internal_options \<inter> fst ` set ?fw = {}"
  proof -
    have "\<forall>k\<in>set internal_options. k \<notin> fst ` set ?fw"
      using look by (simp add: map_of_eq_None_iff[symmetric])
    then show ?thesis by blast
  qed
  let ?G = "\<lambda>k ov. case ov of Some (Some c) \<Rightarrow> [CloneElement (f c) k (child_ref (f c) k c)]
                      | _ \<Rightarrow> []"
  let ?K = "concat (map (\<lambda>(k, v). case v of
                                   Some c \<Rightarrow> [CloneElement (f c) k (child_ref (f c) k c)]
                                 | None \<Rightarrow> []) ?cm)"
  have "map (\<lambda>k. ?G k (map_of ?cm k)) (map fst ?cm) = map (\<lambda>(k, v). ?G k (Some v)) ?cm"
    by (rule for_in_lookup[OF assms(2)])
  moreover have "(\<lambda>(k, v). ?G k (Some v)) =
       (\<lambda>(k, v). case v of Some c \<Rightarrow> [CloneElement (f c) k (child_ref (f c) k c)]
                            | None \<Rightarrow> [])"
    by (auto simp: fun_eq_iff split: option.splits)
  ultimately have kids: "concat (map (\<lambda>k. ?G k (map_of ?cm k)) (map fst ?cm)) = ?K"
    by (simp only:)
  have merged: "visible_children (componentWillReceiveProps E nextProps w) =
             mergeChildMappings E
               (case state_children w of None \<Rightarrow> None | Some a \<Rightarrow> Some (heap w a))
               (getChildMapping E (map_of (pfields nextProps) ''children''))"
    by (simp add: componentWillReceiveProps_def visible_children_def setState_def Let_def)
  let ?w' = "w\<lparr>trace := trace w @ concat (map (\<lambda>k. case map_of ?cm k of
                                    Some (Some c) \<Rightarrow>
                                      if isCallbackRef c then [] else [Warning string_ref_message]
                                  | _ \<Rightarrow> []) (map fst ?cm))\<rparr>"
  have r': "render w = Inr (CreateElement (map_of (pfields (props w)) ''component'') ?fw ?K, ?w')"
    using r kids by (simp only:)
  show ?thesis
    apply (rule exI[of _ "?fw"])
    apply (rule exI[of _ "?K"])
    apply (rule exI[of _ "?w'"])
    apply (intro conjI)
        apply (rule r')
       apply (rule none)
      apply (rule look)
     apply (rule refl)
    apply (rule merged)
    done
qed

lemma demo_visible_distinct: "distinct (map fst (visible_children demo_world))"
  by (simp add: demo_world_def visible_children_def demo_children_def)

theorem render_strips_internal_options_witness:
  "\<exists>forwarded kids w'.
     render demo_world = Inr (CreateElement (map_of (pfields (props demo_world)) ''component'')
                             forwarded kids, w') \<and>
     set internal_options \<inter> fst ` set forwarded = {} \<and>
     (\<forall>k. map_of forwarded k =
            (if k \<in> set internal_options then None
             else map_of (pfields (props demo_world)) k)) \<and>
     kids = concat (map (\<lambda>(k, v). case v of
                             Some c \<Rightarrow> [CloneElement ((\<lambda>child. child) c) k
                                         (child_ref ((\<lambda>child. child) c) k c)]
                           | None \<Rightarrow> []) (visible_children demo_world)) \<and>
     visible_children (componentWillReceiveProps demo_env (demo_props 3 []) demo_world) =
       mergeChildMappings demo_env
         (case state_children demo_world of None \<Rightarrow> None
          | Some a \<Rightarrow> Some (heap demo_world a))
         (getChildMapping demo_env (map_of (pfields (demo_props 3 [])) ''children''))"
  by (rule render_strips_internal_options[OF demo_childFactory demo_visible_distinct])

section \<open>Mounting and updates without new props\<close>

lemma children_unset_after_mount:
  "children ((componentWillMount (constructor E p w0))\<lparr>childRefs := refs\<rparr>) = None"
  by (simp add: componentWillMount_def constructor_def split: option.splits)

lemma updateDomNodes_children_unset: "children w = None \<Longrightarrow> updateDomNodes E w = w"
  by (simp add: updateDomNodes_def for_in_children_def)

text \<open>
  C9. When the previous props are the very object \<^verbatim>\<open>this.props\<close>, the pass after the
  update returns the world it was given: the snapshot mappings, the registry of
  animations, the styles of every node, the pending frames and the sequence of outside
  calls (no measurement, no style write, no frame request) are all unchanged.
\<close>

theorem same_props_update_changes_nothing:
  assumes "pid prevProps = pid (props w)"
  shows "componentDidUpdate E prevProps w = Inr w"
  using assms by (simp add: componentDidUpdate_def)

theorem same_props_update_changes_nothing_witness:
  "componentDidUpdate demo_env (props demo_world) demo_world = Inr demo_world"
  by (rule same_props_update_changes_nothing) simp

text \<open>
  C10. The instance as \<^verbatim>\<open>componentDidMount\<close> finds it: constructed, passed through
  \<^verbatim>\<open>componentWillMount\<close>, and with whatever refs React attached after the first
  render. \<^verbatim>\<open>this.children\<close> is still unset, so \<^verbatim>\<open>updateDomNodes\<close> visits no key:
  the instance is returned as it was. No snapshot is taken, no descriptor computed, no
  style written, no frame requested, and no node reference is resolved either.
\<close>

theorem initial_mount_changes_nothing:
  "componentDidMount E ((componentWillMount (constructor E p w0))\<lparr>childRefs := refs\<rparr>) =
     (componentWillMount (constructor E p w0))\<lparr>childRefs := refs\<rparr> \<and>
   domNodes (componentDidMount E ((componentWillMount (constructor E p w0))\<lparr>childRefs := refs\<rparr>))
     = Map.empty \<and>
   startingPositions
     (componentDidMount E ((componentWillMount (constructor E p w0))\<lparr>childRefs := refs\<rparr>))
     = Map.empty \<and>
   endingPositions
     (componentDidMount E ((componentWillMount (constructor E p w0))\<lparr>childRefs := refs\<rparr>))
     = Map.empty \<and>
   animations
     (componentDidMount E ((componentWillMount (constructor E p w0))\<lparr>childRefs := refs\<rparr>))
     = [] \<and>
   styles (componentDidMount E ((componentWillMount (constructor E p w0))\<lparr>childRefs := refs\<rparr>))
     = styles w0 \<and>
   frames (componentDidMount E ((componentWillMount (constructor E p w0))\<lparr>childRefs := refs\<rparr>))
     = frames w0 \<and>
   trace (componentDidMount E ((componentWillMount (constructor E p w0))\<lparr>childRefs := refs\<rparr>))
     = trace w0"
proof -
  let ?w = "(componentWillMount (constructor E p w0))\<lparr>childRefs := refs\<rparr>"
  have same: "componentDidMount E ?w = ?w"
    unfolding componentDidMount_def
    by (rule updateDomNodes_children_unset) (rule children_unset_after_mount)
  have fields: "domNodes ?w = Map.empty" "startingPositions ?w = Map.empty"
    "endingPositions ?w = Map.empty" "animations ?w = []" "styles ?w = styles w0"
    "frames ?w = frames w0" "trace ?w = trace w0"
    by (simp_all add: componentWillMount_def constructor_def split: option.splits)
  show ?thesis
    unfolding same using fields by simp
qed

text \<open>The same on a list of one child whose ref is attached: its node would be found,
  and is not looked for.\<close>

lemma initial_mount_leaves_child_unresolved:
  "findDOMNode demo_env 1 = Some 1 \<and>
   domNodes (componentDidMount demo_env
     ((componentWillMount (constructor demo_env (demo_props 1 [demo_child 1 ''a'' NoRef]) demo_world))
        \<lparr>childRefs := [''a'' \<mapsto> 1]\<rparr>)) ''a'' = None"
proof -
  let ?w = "(componentWillMount (constructor demo_env (demo_props 1 [demo_child 1 ''a'' NoRef])
               demo_world))\<lparr>childRefs := [''a'' \<mapsto> 1]\<rparr>"
  have "componentDidMount demo_env ?w = ?w"
    unfolding componentDidMount_def
    by (rule updateDomNodes_children_unset) (rule children_unset_after_mount)
  moreover have "domNodes ?w ''a'' = None"
    by (simp add: componentWillMount_def constructor_def split: option.splits)
  moreover have "findDOMNode demo_env 1 = Some 1"
    by (simp add: demo_env_def)
  ultimately show ?thesis by simp
qed

section \<open>The hide, capture and restore sequence\<close>




lemma measure_node_styles: "styles w' = styles w \<Longrightarrow> measure_node E w' n = measure_node E w n"
  by (simp add: measure_node_def)


text \<open>The capture loop in closed form: it writes the snapshot mapping and measures, and
  touches nothing else.\<close>

lemma capture_ending_fold:
  "fold (capture_ending E) ks w =
     w\<lparr>endingPositions := (\<lambda>k. if k \<in> set ks
            then Some (case domNodes w k of None \<Rightarrow> EmptyObject | Some n \<Rightarrow> measure_node E w n)
            else endingPositions w k),
       trace := trace w @ map Measure (List.map_filter (domNodes w) ks)\<rparr>"
proof (induction ks arbitrary: w)
  case Nil
  then show ?case by (simp add: map_filter_simps)
next
  case (Cons k ks)
  let ?w1 = "capture_ending E k w"
  have dn: "domNodes ?w1 = domNodes w" and st: "styles ?w1 = styles w"
    by (simp_all add: capture_ending_def split: option.splits)
  have ms: "measure_node E ?w1 = measure_node E w"
    using measure_node_styles[OF st] by (simp add: fun_eq_iff)
  have ep: "endingPositions ?w1 = (endingPositions w)(k \<mapsto>
      (case domNodes w k of None \<Rightarrow> EmptyObject | Some n \<Rightarrow> measure_node E w n))"
    by (simp add: capture_ending_def split: option.splits)
  have tr: "trace ?w1 = trace w @ map Measure (List.map_filter (domNodes w) [k])"
    by (simp add: capture_ending_def map_filter_simps split: option.splits)
  have rest: "?w1 = w\<lparr>endingPositions := endingPositions ?w1, trace := trace ?w1\<rparr>"
    by (simp add: capture_ending_def split: option.splits)
  have "fold (capture_ending E) (k # ks) w = fold (capture_ending E) ks ?w1" by simp
  also have "\<dots> = ?w1\<lparr>endingPositions := (\<lambda>k'. if k' \<in> set ks
            then Some (case domNodes ?w1 k' of None \<Rightarrow> EmptyObject
                       | Some n \<Rightarrow> measure_node E ?w1 n)
            else endingPositions ?w1 k'),
       trace := trace ?w1 @ map Measure (List.map_filter (domNodes ?w1) ks)\<rparr>"
    by (rule Cons.IH)
  also have "\<dots> = w\<lparr>endingPositions := (\<lambda>k'. if k' \<in> set ks
            then Some (case domNodes ?w1 k' of None \<Rightarrow> EmptyObject
                       | Some n \<Rightarrow> measure_node E ?w1 n)
            else endingPositions ?w1 k'),
       trace := trace ?w1 @ map Measure (List.map_filter (domNodes ?w1) ks)\<rparr>"
    by (subst rest) simp
  also have "\<dots> = w\<lparr>endingPositions := (\<lambda>k'. if k' \<in> set (k # ks)
            then Some (case domNodes w k' of None \<Rightarrow> EmptyObject | Some n \<Rightarrow> measure_node E w n)
            else endingPositions w k'),
       trace := trace w @ map Measure (List.map_filter (domNodes w) (k # ks))\<rparr>"
  proof -
    have "(\<lambda>k'. if k' \<in> set ks
            then Some (case domNodes ?w1 k' of None \<Rightarrow> EmptyObject
                       | Some n \<Rightarrow> measure_node E ?w1 n)
            else endingPositions ?w1 k') =
          (\<lambda>k'. if k' \<in> set (k # ks)
            then Some (case domNodes w k' of None \<Rightarrow> EmptyObject | Some n \<Rightarrow> measure_node E w n)
            else endingPositions w k')"
      unfolding dn ms ep by (auto simp: fun_eq_iff)
    moreover have "trace ?w1 @ map Measure (List.map_filter (domNodes ?w1) ks) =
          trace w @ map Measure (List.map_filter (domNodes w) (k # ks))"
      unfolding dn tr by (simp add: map_filter_simps split: option.splits)
    ultimately show ?thesis by (simp only:)
  qed
  finally show ?case .
qed



text \<open>Keys marked leaving by \<^verbatim>\<open>componentWillReceiveProps\<close> have no own property in the
  next mapping.\<close>

lemma mark_leaving_keys:
  "fst ` set (fold (mark_leaving p nx) ks acc) \<subseteq> fst ` set acc \<union> {k. \<not> hasNext nx k}"
proof (induction ks arbitrary: acc)
  case Nil
  then show ?case by simp
next
  case (Cons k ks)
  have "fst ` set (mark_leaving p nx k acc) \<subseteq> fst ` set acc \<union> {k. \<not> hasNext nx k}"
    by (auto simp: mark_leaving_def dom_update split: option.splits)
  with Cons.IH[of "mark_leaving p nx k acc"] show ?case by auto
qed

lemma leaving_keys_not_in_next:
  "\<forall>k\<in>set (for_in_leavingKeys (componentWillReceiveProps E nextProps w0)).
     \<not> hasNext (getChildMapping E (map_of (pfields nextProps) ''children'')) k"
  using mark_leaving_keys[of _ "getChildMapping E (map_of (pfields nextProps) ''children'')" _ "[]"]
  by (auto simp: componentWillReceiveProps_def for_in_leavingKeys_def Let_def setState_def)

section \<open>Cancelling registered animations\<close>

lemma invoke_cancel_result:
  "domNodes w k = Some n \<Longrightarrow>
     invoke_cancel (Cancel k) w =
       Inr (w\<lparr>styles := (styles w)(n := (styles w n)\<lparr>transition := [], transform := NoTransform\<rparr>),
              animations := AList.delete k (animations w),
              trace := trace w @ [CancelInvoked k, SetTransition n [], SetTransform n NoTransform]\<rparr>)"
  by (simp add: set_transition_def set_transform_def Let_def)

lemma invoke_cancel_Inr:
  assumes "invoke_cancel c w = Inr w'"
  obtains k n where "c = Cancel k" and "domNodes w k = Some n"
proof -
  obtain k where c: "c = Cancel k" by (cases c)
  with assms obtain n where "domNodes w k = Some n"
    by (cases "domNodes w k") auto
  with c that show thesis by blast
qed

lemma registry_ok_delete: "registry_ok reg \<Longrightarrow> registry_ok (AList.delete k reg)"
  by (auto simp: registry_ok_def list_all_iff AList.delete_eq)

lemma registry_ok_lookup: "registry_ok reg \<Longrightarrow> map_of reg k = Some c \<Longrightarrow> c = Cancel k"
  by (auto simp: registry_ok_def list_all_iff dest: map_of_SomeD)

text \<open>The cancel loop touches the styles, the registry and the sequence of calls only.\<close>

lemma cancel_loop_frame:
  "cancel_loop ks w = Inr w' \<Longrightarrow>
     w' = w\<lparr>styles := styles w', animations := animations w', trace := trace w'\<rparr>"
proof (induction ks arbitrary: w)
  case Nil
  then show ?case by simp
next
  case (Cons k ks)
  show ?case
  proof (cases "map_of (animations w) k")
    case None
    with Cons.prems have "cancel_loop ks w = Inr w'" by simp
    then show ?thesis by (rule Cons.IH)
  next
    case (Some c)
    with Cons.prems obtain w1 where 1: "invoke_cancel c w = Inr w1"
      and 2: "cancel_loop ks w1 = Inr w'"
      by (auto split: sum.splits)
    from 1 obtain k' n where c: "c = Cancel k'" and n: "domNodes w k' = Some n"
      by (rule invoke_cancel_Inr)
    from 1 have w1: "w1 = w\<lparr>styles := styles w1, animations := animations w1, trace := trace w1\<rparr>"
      unfolding c invoke_cancel_result[OF n] by auto
    from Cons.IH[OF 2] have "w' = w1\<lparr>styles := styles w', animations := animations w',
        trace := trace w'\<rparr>" .
    then show ?thesis by (subst (asm) w1) simp
  qed
qed

text \<open>With a well-formed registry, a cancel loop that returns has invoked the closure of
  every visited key that was registered, has made no other call than those of the
  closures, and has removed the visited keys from the registry.\<close>

lemma cancel_loop_effect:
  assumes "registry_ok (animations w)" and "cancel_loop ks w = Inr w'"
  shows "\<exists>evs. trace w' = trace w @ evs \<and> (\<forall>e\<in>set evs. is_cancel_event e) \<and>
           (\<forall>k\<in>set ks. map_of (animations w) k \<noteq> None \<longrightarrow> CancelInvoked k \<in> set evs) \<and>
           animations w' = filter (\<lambda>(k, c). k \<notin> set ks) (animations w)"
  using assms
proof (induction ks arbitrary: w)
  case Nil
  then show ?case by simp
next
  case (Cons k ks)
  show ?case
  proof (cases "map_of (animations w) k")
    case None
    with Cons.prems have run: "cancel_loop ks w = Inr w'" by simp
    from Cons.IH[OF Cons.prems(1) run] obtain evs where
      evs: "trace w' = trace w @ evs" "\<forall>e\<in>set evs. is_cancel_event e"
      "\<forall>k\<in>set ks. map_of (animations w) k \<noteq> None \<longrightarrow> CancelInvoked k \<in> set evs"
      "animations w' = filter (\<lambda>(k, c). k \<notin> set ks) (animations w)"
      by blast
    from None have "k \<notin> fst ` set (animations w)" by (simp add: map_of_eq_None_iff)
    then have "filter (\<lambda>(k', c). k' \<notin> set ks) (animations w) =
               filter (\<lambda>(k', c). k' \<notin> set (k # ks)) (animations w)"
      by (intro filter_cong) force+
    with evs None show ?thesis by auto
  next
    case (Some c)
    from registry_ok_lookup[OF Cons.prems(1) Some] have c: "c = Cancel k" .
    from Cons.prems(2) Some c obtain w1 where 1: "invoke_cancel (Cancel k) w = Inr w1"
      and 2: "cancel_loop ks w1 = Inr w'"
      by (auto split: sum.splits)
    from 1 obtain n where n: "domNodes w k = Some n"
      by (cases "domNodes w k") auto
    from 1 have tr1: "trace w1 = trace w @ [CancelInvoked k, SetTransition n [], SetTransform n NoTransform]"
      and an1: "animations w1 = AList.delete k (animations w)"
      unfolding invoke_cancel_result[OF n] by auto
    have ok1: "registry_ok (animations w1)"
      unfolding an1 using Cons.prems(1) by (rule registry_ok_delete)
    from Cons.IH[OF ok1 2] obtain evs where
      evs: "trace w' = trace w1 @ evs" "\<forall>e\<in>set evs. is_cancel_event e"
      "\<forall>k\<in>set ks. map_of (animations w1) k \<noteq> None \<longrightarrow> CancelInvoked k \<in> set evs"
      "animations w' = filter (\<lambda>(k, c). k \<notin> set ks) (animations w1)"
      by blast
    let ?evs = "[CancelInvoked k, SetTransition n [], SetTransform n NoTransform] @ evs"
    have a: "trace w' = trace w @ ?evs" using evs(1) tr1 by simp
    have b: "\<forall>e\<in>set ?evs. is_cancel_event e" using evs(2) by simp
    have c': "\<forall>k'\<in>set (k # ks). map_of (animations w) k' \<noteq> None \<longrightarrow> CancelInvoked k' \<in> set ?evs"
    proof (intro ballI impI)
      fix k' assume k': "k' \<in> set (k # ks)" and reg: "map_of (animations w) k' \<noteq> None"
      show "CancelInvoked k' \<in> set ?evs"
      proof (cases "k' = k")
        case True
        then show ?thesis by simp
      next
        case False
        with k' have "k' \<in> set ks" by simp
        moreover from False reg have "map_of (animations w1) k' \<noteq> None"
          unfolding an1 by (simp add: delete_conv)
        ultimately show ?thesis using evs(3) by simp
      qed
    qed
    have d: "animations w' = filter (\<lambda>(k', c). k' \<notin> set (k # ks)) (animations w)"
      unfolding evs(4) an1 AList.delete_eq by (auto intro: filter_cong)
    from a b c' d show ?thesis by blast
  qed
qed


lemma filter_all_keys: "filter (\<lambda>(k, c). k \<notin> set (map fst reg)) reg = []"
  by (induction reg) (auto simp: filter_empty_conv)

lemma cancel_all_effect:
  assumes "registry_ok (animations w)" and "cancel_all w = Inr w'"
  shows "\<exists>evs. trace w' = trace w @ evs \<and> (\<forall>e\<in>set evs. is_cancel_event e) \<and>
           (\<forall>k\<in>fst ` set (animations w). CancelInvoked k \<in> set evs) \<and>
           animations w' = []"
proof -
  from cancel_loop_effect[OF assms(1) assms(2)[unfolded cancel_all_def]] obtain evs where
    evs: "trace w' = trace w @ evs" "\<forall>e\<in>set evs. is_cancel_event e"
      "\<forall>k\<in>set (map fst (animations w)). map_of (animations w) k \<noteq> None \<longrightarrow>
          CancelInvoked k \<in> set evs"
      "animations w' = filter (\<lambda>(k, c). k \<notin> set (map fst (animations w))) (animations w)"
    by blast
  have "\<forall>k\<in>fst ` set (animations w). CancelInvoked k \<in> set evs"
    using evs(3) by (auto simp: map_of_eq_None_iff)
  moreover have "animations w' = []"
    unfolding evs(4) by (rule filter_all_keys)
  ultimately show ?thesis using evs(1,2) by blast
qed

lemma cancel_first_not_overwritten:
  "\<forall>e\<in>set xs. is_cancel_event e \<Longrightarrow> CancelInvoked key \<in> set xs \<Longrightarrow>
     \<not> overwritten_uncancelled key n (xs @ ys)"
proof (induction xs)
  case Nil
  then show ?case by simp
next
  case (Cons e xs)
  show ?case
  proof (cases "e = CancelInvoked key")
    case True
    then show ?thesis by simp
  next
    case False
    with Cons.prems have "CancelInvoked key \<in> set xs" and "\<forall>e\<in>set xs. is_cancel_event e"
      by auto
    with Cons.IH have "\<not> overwritten_uncancelled key n (xs @ ys)" by simp
    moreover from Cons.prems(1) have "\<not> is_translate_write n e"
      by (cases e) auto
    ultimately show ?thesis by simp
  qed
qed

section \<open>Later calls only extend the sequence of calls\<close>

lemma fold_trace_prefix:
  assumes "\<And>x w. prefix (trace w) (trace (f x w))"
  shows "prefix (trace w) (trace (fold f xs w))"
proof (induction xs arbitrary: w)
  case Nil
  then show ?case by simp
next
  case (Cons x xs)
  have "prefix (trace w) (trace (f x w))" by (rule assms)
  also have "prefix (trace (f x w)) (trace (fold f xs (f x w)))" by (rule Cons.IH)
  finally show ?case by simp
qed

lemma capture_real_prefix: "prefix (trace w) (trace (capture_real E k w))"
  by (simp add: capture_real_def split: option.splits)

lemma capture_ending_prefix: "prefix (trace w) (trace (capture_ending E k w))"
  by (simp add: capture_ending_def split: option.splits)

lemma hide_fold_prefix: "prefix (trace w) (trace (snd (fold hide_step ks (od, w))))"
proof (induction ks arbitrary: od w)
  case Nil
  then show ?case by simp
next
  case (Cons k ks)
  obtain od1 w1 where step: "hide_step k (od, w) = (od1, w1)"
    by (cases "hide_step k (od, w)")
  then have "prefix (trace w) (trace w1)"
    by (auto simp: hide_step_def set_display_def split: option.splits)
  also have "prefix (trace w1) (trace (snd (fold hide_step ks (od1, w1))))"
    by (rule Cons.IH)
  finally show ?case using step by simp
qed

lemma restore_displays_prefix:
  "restore_displays od w = Inr w' \<Longrightarrow> prefix (trace w) (trace w')"
proof (induction od arbitrary: w)
  case Nil
  then show ?case by simp
next
  case (Cons kv od)
  obtain k v where kv: "kv = (k, v)" by (cases kv)
  with Cons.prems obtain n where n: "domNodes w k = Some n"
    and run: "restore_displays od (set_display n v w) = Inr w'"
    by (cases "domNodes w k") auto
  have "prefix (trace w) (trace (set_display n v w))"
    by (simp add: set_display_def)
  also have "prefix (trace (set_display n v w)) (trace w')"
    by (rule Cons.IH[OF run])
  finally show ?case .
qed

lemma create_animations_prefix:
  "create_animations planned w = Inr w' \<Longrightarrow> prefix (trace w) (trace w')"
proof (induction planned arbitrary: w)
  case Nil
  then show ?case by simp
next
  case (Cons kd planned)
  obtain k d where kd: "kd = (k, d)" by (cases kd)
  let ?w1 = "w\<lparr>animations := AList.update k (Cancel k) (animations w)\<rparr>"
  from Cons.prems kd obtain n where n: "domNodes w k = Some n"
    and run: "create_animations planned (set_transform n (fst d) ?w1) = Inr w'"
    by (cases "domNodes w k") (auto simp: Let_def)
  have "prefix (trace w) (trace (set_transform n (fst d) ?w1))"
    by (simp add: set_transform_def)
  also have "prefix (trace (set_transform n (fst d) ?w1)) (trace w')"
    by (rule Cons.IH[OF run])
  finally show ?case .
qed

lemma measure_and_animate_prefix:
  assumes "measure_and_animate E w2 = Inr w'"
  shows "prefix (trace w2) (trace w')"
proof -
  let ?w3 = "fold (capture_real E) (for_in_children w2) (w2\<lparr>realPositions := Map.empty\<rparr>)"
  obtain od w4 where hide: "hide_leaving ?w3 = (od, w4)"
    by (cases "hide_leaving ?w3")
  let ?w5 = "fold (capture_ending E) (for_in_children w4) (w4\<lparr>endingPositions := Map.empty\<rparr>)"
  from assms hide obtain w6 planned w7 where
    restore: "restore_displays od ?w5 = Inr w6"
    and create: "create_animations planned w6 = Inr w7"
    and w': "w' = requestAnimationFrame (Frame1 planned) w7"
    by (auto simp: measure_and_animate_def Let_def split: sum.splits)
  have "prefix (trace w2) (trace ?w3)"
    using fold_trace_prefix[of "capture_real E" "w2\<lparr>realPositions := Map.empty\<rparr>",
        OF capture_real_prefix]
    by simp
  also have "prefix (trace ?w3) (trace w4)"
    using hide_fold_prefix[of ?w3 "for_in_leavingKeys ?w3" "[]"] hide
    by (simp add: hide_leaving_def)
  also have "prefix (trace w4) (trace ?w5)"
    using fold_trace_prefix[of "capture_ending E" "w4\<lparr>endingPositions := Map.empty\<rparr>",
        OF capture_ending_prefix]
    by simp
  also have "prefix (trace ?w5) (trace w6)"
    by (rule restore_displays_prefix[OF restore])
  also have "prefix (trace w6) (trace w7)"
    by (rule create_animations_prefix[OF create])
  also have "prefix (trace w7) (trace w')"
    unfolding w' by (simp add: requestAnimationFrame_def)
  finally show ?thesis .
qed

lemma fold_domNodes_frame:
  "fold (\<lambda>key w'. w'\<lparr>domNodes := F key w'\<rparr>) ks w =
     w\<lparr>domNodes := domNodes (fold (\<lambda>key w'. w'\<lparr>domNodes := F key w'\<rparr>) ks w)\<rparr>"
proof (induction ks arbitrary: w)
  case Nil
  then show ?case by simp
next
  case (Cons k ks)
  let ?f = "\<lambda>key w'. w'\<lparr>domNodes := F key w'\<rparr>"
  let ?w1 = "w\<lparr>domNodes := F k w\<rparr>"
  have step: "fold ?f (k # ks) w = fold ?f ks ?w1" by simp
  have "fold ?f ks ?w1 = ?w1\<lparr>domNodes := domNodes (fold ?f ks ?w1)\<rparr>" by (rule Cons.IH)
  also have "\<dots> = w\<lparr>domNodes := domNodes (fold ?f ks ?w1)\<rparr>" by simp
  finally show ?case unfolding step .
qed

lemma updateDomNodes_frame:
  "updateDomNodes E w = w\<lparr>domNodes := domNodes (updateDomNodes E w)\<rparr>"
  unfolding updateDomNodes_def by (rule fold_domNodes_frame)

section \<open>The pass after the update, phase by phase\<close>

text \<open>The loop taking the real snapshot, in closed form.\<close>

lemma capture_real_fold:
  "fold (capture_real E) ks w =
     w\<lparr>realPositions := (\<lambda>k. if k \<in> set ks
            then Some (case domNodes w k of None \<Rightarrow> EmptyObject | Some n \<Rightarrow> measure_node E w n)
            else realPositions w k),
       trace := trace w @ map Measure (List.map_filter (domNodes w) ks)\<rparr>"
proof (induction ks arbitrary: w)
  case Nil
  then show ?case by (simp add: map_filter_simps)
next
  case (Cons k ks)
  let ?w1 = "capture_real E k w"
  have dn: "domNodes ?w1 = domNodes w" and st: "styles ?w1 = styles w"
    by (simp_all add: capture_real_def split: option.splits)
  have ms: "measure_node E ?w1 = measure_node E w"
    using measure_node_styles[OF st] by (simp add: fun_eq_iff)
  have ep: "realPositions ?w1 = (realPositions w)(k \<mapsto>
      (case domNodes w k of None \<Rightarrow> EmptyObject | Some n \<Rightarrow> measure_node E w n))"
    by (simp add: capture_real_def split: option.splits)
  have tr: "trace ?w1 = trace w @ map Measure (List.map_filter (domNodes w) [k])"
    by (simp add: capture_real_def map_filter_simps split: option.splits)
  have rest: "?w1 = w\<lparr>realPositions := realPositions ?w1, trace := trace ?w1\<rparr>"
    by (simp add: capture_real_def split: option.splits)
  have "fold (capture_real E) (k # ks) w = fold (capture_real E) ks ?w1" by simp
  also have "\<dots> = ?w1\<lparr>realPositions := (\<lambda>k'. if k' \<in> set ks
            then Some (case domNodes ?w1 k' of None \<Rightarrow> EmptyObject
                       | Some n \<Rightarrow> measure_node E ?w1 n)
            else realPositions ?w1 k'),
       trace := trace ?w1 @ map Measure (List.map_filter (domNodes ?w1) ks)\<rparr>"
    by (rule Cons.IH)
  also have "\<dots> = w\<lparr>realPositions := (\<lambda>k'. if k' \<in> set ks
            then Some (case domNodes ?w1 k' of None \<Rightarrow> EmptyObject
                       | Some n \<Rightarrow> measure_node E ?w1 n)
            else realPositions ?w1 k'),
       trace := trace ?w1 @ map Measure (List.map_filter (domNodes ?w1) ks)\<rparr>"
    by (subst rest) simp
  also have "\<dots> = w\<lparr>realPositions := (\<lambda>k'. if k' \<in> set (k # ks)
            then Some (case domNodes w k' of None \<Rightarrow> EmptyObject | Some n \<Rightarrow> measure_node E w n)
            else realPositions w k'),
       trace := trace w @ map Measure (List.map_filter (domNodes w) (k # ks))\<rparr>"
  proof -
    have "(\<lambda>k'. if k' \<in> set ks
            then Some (case domNodes ?w1 k' of None \<Rightarrow> EmptyObject
                       | Some n \<Rightarrow> measure_node E ?w1 n)
            else realPositions ?w1 k') =
          (\<lambda>k'. if k' \<in> set (k # ks)
            then Some (case domNodes w k' of None \<Rightarrow> EmptyObject | Some n \<Rightarrow> measure_node E w n)
            else realPositions w k')"
      unfolding dn ms ep by (auto simp: fun_eq_iff)
    moreover have "trace ?w1 @ map Measure (List.map_filter (domNodes ?w1) ks) =
          trace w @ map Measure (List.map_filter (domNodes w) (k # ks))"
      unfolding dn tr by (simp add: map_filter_simps split: option.splits)
    ultimately show ?thesis by (simp only:)
  qed
  finally show ?case .
qed

text \<open>The hiding and the restoring loops touch the styles and the sequence of calls
  only; the loop writing the start transforms touches the registry as well.\<close>

lemma hide_fold_frame:
  "snd (fold hide_step ks (od, w)) =
     w\<lparr>styles := styles (snd (fold hide_step ks (od, w))),
       trace := trace (snd (fold hide_step ks (od, w)))\<rparr>"
proof (induction ks arbitrary: od w)
  case Nil
  then show ?case by simp
next
  case (Cons k ks)
  obtain od1 w1 where step: "hide_step k (od, w) = (od1, w1)"
    by (cases "hide_step k (od, w)")
  then have w1: "w1 = w\<lparr>styles := styles w1, trace := trace w1\<rparr>"
    by (auto simp: hide_step_def set_display_def split: option.splits)
  have run: "fold hide_step (k # ks) (od, w) = fold hide_step ks (od1, w1)"
    using step by simp
  have "snd (fold hide_step ks (od1, w1)) =
     w1\<lparr>styles := styles (snd (fold hide_step ks (od1, w1))),
       trace := trace (snd (fold hide_step ks (od1, w1)))\<rparr>"
    by (rule Cons.IH)
  then have "snd (fold hide_step ks (od1, w1)) =
     w\<lparr>styles := styles (snd (fold hide_step ks (od1, w1))),
       trace := trace (snd (fold hide_step ks (od1, w1)))\<rparr>"
    by (subst (asm) (2) w1) simp
  then show ?case unfolding run .
qed

lemma restore_displays_frame:
  "restore_displays od w = Inr w' \<Longrightarrow> w' = w\<lparr>styles := styles w', trace := trace w'\<rparr>"
proof (induction od arbitrary: w)
  case Nil
  then show ?case by simp
next
  case (Cons kv od)
  obtain k v where kv: "kv = (k, v)" by (cases kv)
  with Cons.prems obtain n where n: "domNodes w k = Some n"
    and run: "restore_displays od (set_display n v w) = Inr w'"
    by (cases "domNodes w k") auto
  from Cons.IH[OF run]
  have "w' = (set_display n v w)\<lparr>styles := styles w', trace := trace w'\<rparr>" .
  then show ?case by (simp add: set_display_def)
qed

lemma create_animations_effect:
  assumes "create_animations planned w = Inr w'"
  shows "w' = w\<lparr>styles := styles w', animations := animations w',
               trace := trace w @ map (\<lambda>(k, d). SetTransform (the (domNodes w k)) (fst d)) planned\<rparr> \<and>
         fst ` set (animations w') = fst ` set (animations w) \<union> fst ` set planned \<and>
         (\<forall>(k, d)\<in>set planned. domNodes w k \<noteq> None) \<and>
         (\<forall>n. styles w' n = (styles w n)\<lparr>transform := transform (styles w' n)\<rparr>)"
  using assms
proof (induction planned arbitrary: w)
  case Nil
  then show ?case by simp
next
  case (Cons kd planned)
  obtain k d where kd: "kd = (k, d)" by (cases kd)
  let ?w1 = "w\<lparr>animations := AList.update k (Cancel k) (animations w)\<rparr>"
  from Cons.prems kd obtain n where n: "domNodes w k = Some n"
    and run: "create_animations planned (set_transform n (fst d) ?w1) = Inr w'"
    by (cases "domNodes w k") (auto simp: Let_def)
  let ?w2 = "set_transform n (fst d) ?w1"
  have dn: "domNodes ?w2 = domNodes w" by (simp add: set_transform_def)
  from Cons.IH[OF run] have
    a: "w' = ?w2\<lparr>styles := styles w', animations := animations w',
               trace := trace ?w2 @ map (\<lambda>(k, d). SetTransform (the (domNodes ?w2 k)) (fst d)) planned\<rparr>"
    and b: "fst ` set (animations w') = fst ` set (animations ?w2) \<union> fst ` set planned"
    and c: "\<forall>(k, d)\<in>set planned. domNodes ?w2 k \<noteq> None"
    and e: "\<forall>m. styles w' m = (styles ?w2 m)\<lparr>transform := transform (styles w' m)\<rparr>"
    by blast+
  have a': "w' = w\<lparr>styles := styles w', animations := animations w',
               trace := trace w @ map (\<lambda>(k, d). SetTransform (the (domNodes w k)) (fst d)) (kd # planned)\<rparr>"
    by (subst a) (simp add: set_transform_def kd n)
  have b': "fst ` set (animations w') = fst ` set (animations w) \<union> fst ` set (kd # planned)"
    using b kd by (auto simp: set_transform_def dom_update)
  have c': "\<forall>(k, d)\<in>set (kd # planned). domNodes w k \<noteq> None"
    using c n kd unfolding dn by simp
  have e': "\<forall>m. styles w' m = (styles w m)\<lparr>transform := transform (styles w' m)\<rparr>"
  proof
    fix m
    have "styles w' m = (styles ?w2 m)\<lparr>transform := transform (styles w' m)\<rparr>"
      using e by blast
    also have "\<dots> = (styles w m)\<lparr>transform := transform (styles w' m)\<rparr>"
      by (simp add: set_transform_def)
    finally show "styles w' m = (styles w m)\<lparr>transform := transform (styles w' m)\<rparr>" .
  qed
  from a' b' c' e' show ?case by blast
qed

text \<open>The phases of the pass once the animations are cancelled, and the worlds between
  them.\<close>

lemma measure_and_animate_steps:
  assumes "measure_and_animate E w2 = Inr w'"
  obtains od w4 w6 planned w7 where
    "hide_leaving (fold (capture_real E) (for_in_children w2) (w2\<lparr>realPositions := Map.empty\<rparr>))
       = (od, w4)"
    and "restore_displays od
           (fold (capture_ending E) (for_in_children w4) (w4\<lparr>endingPositions := Map.empty\<rparr>))
         = Inr w6"
    and "calculate_animations w6 = Inr planned"
    and "create_animations planned w6 = Inr w7"
    and "w' = requestAnimationFrame (Frame1 planned) w7"
proof -
  let ?w3 = "fold (capture_real E) (for_in_children w2) (w2\<lparr>realPositions := Map.empty\<rparr>)"
  obtain od w4 where hide: "hide_leaving ?w3 = (od, w4)"
    by (cases "hide_leaving ?w3")
  from assms hide obtain w6 planned w7 where
    "restore_displays od
       (fold (capture_ending E) (for_in_children w4) (w4\<lparr>endingPositions := Map.empty\<rparr>)) = Inr w6"
    "calculate_animations w6 = Inr planned"
    "create_animations planned w6 = Inr w7"
    "w' = requestAnimationFrame (Frame1 planned) w7"
    by (auto simp: measure_and_animate_def Let_def split: sum.splits)
  with hide that show thesis by blast
qed

lemma measure_and_animate_effect:
  assumes "measure_and_animate E w2 = Inr w'"
  obtains mid planned where
    "trace w' = trace w2 @ map Measure (List.map_filter (domNodes w2) (for_in_children w2)) @ mid @
                map (\<lambda>(k, d). SetTransform (the (domNodes w2 k)) (fst d)) planned @
                [RequestAnimationFrame]"
    and "\<forall>(k, d)\<in>set planned. domNodes w2 k \<noteq> None"
    and "frames w' = frames w2 @ [Frame1 planned]"
    and "fst ` set (animations w') = fst ` set (animations w2) \<union> fst ` set planned"
    and "\<forall>k\<in>set (for_in_children w2). realPositions w' k =
        Some (case domNodes w2 k of None \<Rightarrow> EmptyObject | Some n \<Rightarrow> measure_node E w2 n)"
proof -
  define w2r where "w2r = w2\<lparr>realPositions := Map.empty\<rparr>"
  define w3 where "w3 = fold (capture_real E) (for_in_children w2) w2r"
  obtain od w4 w6 planned w7 where
    hide: "hide_leaving w3 = (od, w4)"
    and restore: "restore_displays od
           (fold (capture_ending E) (for_in_children w4) (w4\<lparr>endingPositions := Map.empty\<rparr>))
         = Inr w6"
    and calc: "calculate_animations w6 = Inr planned"
    and create: "create_animations planned w6 = Inr w7"
    and w': "w' = requestAnimationFrame (Frame1 planned) w7"
    by (rule measure_and_animate_steps[OF assms, folded w2r_def, folded w3_def])
  define w4e where "w4e = w4\<lparr>endingPositions := Map.empty\<rparr>"
  define w5 where "w5 = fold (capture_ending E) (for_in_children w4) w4e"
  have w3: "w3 = w2r\<lparr>realPositions := (\<lambda>k. if k \<in> set (for_in_children w2)
            then Some (case domNodes w2r k of None \<Rightarrow> EmptyObject | Some n \<Rightarrow> measure_node E w2r n)
            else realPositions w2r k),
       trace := trace w2r @ map Measure (List.map_filter (domNodes w2r) (for_in_children w2))\<rparr>"
    unfolding w3_def by (rule capture_real_fold)
  have r: "domNodes w2r = domNodes w2" "trace w2r = trace w2" "frames w2r = frames w2"
    "animations w2r = animations w2" "measure_node E w2r = measure_node E w2"
    by (simp_all add: w2r_def measure_node_def fun_eq_iff)
  have f3: "domNodes w3 = domNodes w2" "frames w3 = frames w2" "animations w3 = animations w2"
    "trace w3 = trace w2 @ map Measure (List.map_filter (domNodes w2) (for_in_children w2))"
    using r(1-4) by (subst w3, simp)+
  have real3: "\<forall>k\<in>set (for_in_children w2). realPositions w3 k =
        Some (case domNodes w2 k of None \<Rightarrow> EmptyObject | Some n \<Rightarrow> measure_node E w2 n)"
  proof
    fix k assume k: "k \<in> set (for_in_children w2)"
    have "realPositions w3 k =
        Some (case domNodes w2r k of None \<Rightarrow> EmptyObject | Some n \<Rightarrow> measure_node E w2r n)"
      by (subst w3) (simp add: k)
    then show "realPositions w3 k =
        Some (case domNodes w2 k of None \<Rightarrow> EmptyObject | Some n \<Rightarrow> measure_node E w2 n)"
      unfolding r .
  qed
  have w4: "w4 = w3\<lparr>styles := styles w4, trace := trace w4\<rparr>"
    using hide_fold_frame[of "for_in_leavingKeys w3" "[]" w3] hide
    by (simp add: hide_leaving_def)
  have p34: "prefix (trace w3) (trace w4)"
    using hide_fold_prefix[of w3 "for_in_leavingKeys w3" "[]"] hide
    by (simp add: hide_leaving_def)
  have w5: "w5 = w4e\<lparr>endingPositions := endingPositions w5, trace := trace w5\<rparr>"
    unfolding w5_def by (simp add: capture_ending_fold)
  have p45: "prefix (trace w4) (trace w5)"
    unfolding w5_def
    using fold_trace_prefix[of "capture_ending E" w4e, OF capture_ending_prefix]
    by (simp add: w4e_def)
  have restore': "restore_displays od w5 = Inr w6"
    using restore unfolding w5_def w4e_def .
  have w6: "w6 = w5\<lparr>styles := styles w6, trace := trace w6\<rparr>"
    by (rule restore_displays_frame[OF restore'])
  have p56: "prefix (trace w5) (trace w6)"
    by (rule restore_displays_prefix[OF restore'])
  have f4: "domNodes w4 = domNodes w3" "frames w4 = frames w3" "animations w4 = animations w3"
    "realPositions w4 = realPositions w3"
    by (subst w4, simp)+
  have f5: "domNodes w5 = domNodes w4" "frames w5 = frames w4" "animations w5 = animations w4"
    "realPositions w5 = realPositions w4"
    by (subst w5, simp add: w4e_def)+
  have f6: "domNodes w6 = domNodes w5" "frames w6 = frames w5" "animations w6 = animations w5"
    "realPositions w6 = realPositions w5"
    by (subst w6, simp)+
  from create_animations_effect[OF create] have
    w7: "w7 = w6\<lparr>styles := styles w7, animations := animations w7,
               trace := trace w6 @ map (\<lambda>(k, d). SetTransform (the (domNodes w6 k)) (fst d)) planned\<rparr>"
    and reg7: "fst ` set (animations w7) = fst ` set (animations w6) \<union> fst ` set planned"
    and nodes7: "\<forall>(k, d)\<in>set planned. domNodes w6 k \<noteq> None"
    by blast+
  have dn6: "domNodes w6 = domNodes w2" using f6(1) f5(1) f4(1) f3(1) by simp
  have f7: "frames w7 = frames w2" "realPositions w7 = realPositions w3"
    "trace w7 = trace w6 @ map (\<lambda>(k, d). SetTransform (the (domNodes w2 k)) (fst d)) planned"
    using f6 f5 f4 f3 dn6 by (subst w7, simp)+
  from p34 p45 p56 have "prefix (trace w3) (trace w6)" by simp
  then obtain mid where mid: "trace w6 = trace w3 @ mid" by (auto simp: prefix_def)
  have tr: "trace w' = trace w2 @ map Measure (List.map_filter (domNodes w2) (for_in_children w2)) @ mid @
                map (\<lambda>(k, d). SetTransform (the (domNodes w2 k)) (fst d)) planned @
                [RequestAnimationFrame]"
    unfolding w' using f7(3) mid f3(4) by (simp add: requestAnimationFrame_def)
  have nodes: "\<forall>(k, d)\<in>set planned. domNodes w2 k \<noteq> None"
    using nodes7 unfolding dn6 .
  have fr: "frames w' = frames w2 @ [Frame1 planned]"
    unfolding w' using f7(1) by (simp add: requestAnimationFrame_def)
  have reg: "fst ` set (animations w') = fst ` set (animations w2) \<union> fst ` set planned"
    unfolding w' using reg7 f6(3) f5(3) f4(3) f3(3) by (simp add: requestAnimationFrame_def)
  have real: "\<forall>k\<in>set (for_in_children w2). realPositions w' k =
        Some (case domNodes w2 k of None \<Rightarrow> EmptyObject | Some n \<Rightarrow> measure_node E w2 n)"
    unfolding w' using real3 f7(2) by (simp add: requestAnimationFrame_def)
  show thesis by (rule that[OF tr nodes fr reg real])
qed

text \<open>A cancel closure writes the cleared values only: what is cleared stays cleared, and
  the node of every invoked key is cleared.\<close>

lemma cancel_loop_keeps_cleared:
  assumes "cancel_loop ks w = Inr w'"
    and "transition (styles w n) = [] \<and> transform (styles w n) = NoTransform"
  shows "transition (styles w' n) = [] \<and> transform (styles w' n) = NoTransform"
  using assms
proof (induction ks arbitrary: w)
  case Nil
  then show ?case by simp
next
  case (Cons k ks)
  show ?case
  proof (cases "map_of (animations w) k")
    case None
    with Cons.prems(1) have "cancel_loop ks w = Inr w'" by simp
    from Cons.IH[OF this Cons.prems(2)] show ?thesis .
  next
    case (Some c)
    with Cons.prems(1) obtain w1 where 1: "invoke_cancel c w = Inr w1"
      and 2: "cancel_loop ks w1 = Inr w'"
      by (auto split: sum.splits)
    from 1 obtain k' m where c: "c = Cancel k'" and m: "domNodes w k' = Some m"
      by (rule invoke_cancel_Inr)
    from 1 have "styles w1 = (styles w)(m := (styles w m)\<lparr>transition := [], transform := NoTransform\<rparr>)"
      unfolding c invoke_cancel_result[OF m] by auto
    with Cons.prems(2) have "transition (styles w1 n) = [] \<and> transform (styles w1 n) = NoTransform"
      by simp
    from Cons.IH[OF 2 this] show ?thesis .
  qed
qed

lemma cancel_loop_cleared:
  assumes "registry_ok (animations w)" and "cancel_loop ks w = Inr w'"
  shows "\<forall>k\<in>set ks. map_of (animations w) k \<noteq> None \<longrightarrow>
           (\<exists>n. domNodes w k = Some n \<and> transition (styles w' n) = [] \<and>
                transform (styles w' n) = NoTransform)"
  using assms
proof (induction ks arbitrary: w)
  case Nil
  then show ?case by simp
next
  case (Cons k ks)
  show ?case
  proof (cases "map_of (animations w) k")
    case None
    with Cons.prems(2) have run: "cancel_loop ks w = Inr w'" by simp
    from Cons.IH[OF Cons.prems(1) run] None show ?thesis by simp
  next
    case (Some c)
    from registry_ok_lookup[OF Cons.prems(1) Some] have c: "c = Cancel k" .
    from Cons.prems(2) Some c obtain w1 where 1: "invoke_cancel (Cancel k) w = Inr w1"
      and 2: "cancel_loop ks w1 = Inr w'"
      by (auto split: sum.splits)
    from 1 obtain n where n: "domNodes w k = Some n"
      by (cases "domNodes w k") auto
    from 1 have st1: "styles w1 = (styles w)(n := (styles w n)\<lparr>transition := [], transform := NoTransform\<rparr>)"
      and an1: "animations w1 = AList.delete k (animations w)"
      and dn1: "domNodes w1 = domNodes w"
      unfolding invoke_cancel_result[OF n] by auto
    have ok1: "registry_ok (animations w1)"
      unfolding an1 using Cons.prems(1) by (rule registry_ok_delete)
    have "transition (styles w1 n) = [] \<and> transform (styles w1 n) = NoTransform"
      unfolding st1 by simp
    from cancel_loop_keeps_cleared[OF 2 this]
    have own: "transition (styles w' n) = [] \<and> transform (styles w' n) = NoTransform" .
    show ?thesis
    proof (intro ballI impI)
      fix k' assume k': "k' \<in> set (k # ks)" and reg: "map_of (animations w) k' \<noteq> None"
      show "\<exists>n. domNodes w k' = Some n \<and> transition (styles w' n) = [] \<and>
                transform (styles w' n) = NoTransform"
      proof (cases "k' = k")
        case True
        with n own show ?thesis by blast
      next
        case False
        with k' have "k' \<in> set ks" by simp
        moreover from False reg have "map_of (animations w1) k' \<noteq> None"
          unfolding an1 by (simp add: delete_conv)
        ultimately show ?thesis
          using Cons.IH[OF ok1 2] unfolding dn1 by blast
      qed
    qed
  qed
qed

lemma for_in_children_unchanged:
  "children w' = children w \<Longrightarrow> heap w' = heap w \<Longrightarrow> for_in_children w' = for_in_children w"
  by (simp add: for_in_children_def split: option.splits)

text \<open>
  C3, as stated: on the concrete update, the animation of \<^verbatim>\<open>c\<close> is registered when the
  new cycle starts and the cycle writes a new translation to the node of \<^verbatim>\<open>c\<close>; but the
  registered cancel closure of \<^verbatim>\<open>c\<close> is invoked first, as the first call of the pass.
\<close>

theorem stale_cancel_counterexample:
  "map_of (animations demo_world) ''c'' = Some (Cancel ''c'') \<and>
   map_sum id trace (componentDidUpdate demo_env (demo_props 1 []) demo_world) =
     Inr [CancelInvoked ''c'', SetTransition 3 [], SetTransform 3 NoTransform,
          Measure 1, Measure 2, Measure 3, SetDisplay 2 ''none'',
          Measure 1, Measure 2, Measure 3, SetDisplay 2 [],
          SetTransform 2 (Translate (Num 0) (Num 0)),
          SetTransform 3 (Translate (Num 0) (Num 0)), RequestAnimationFrame] \<and>
   \<not> overwritten_uncancelled ''c'' 3
     [CancelInvoked ''c'', SetTransition 3 [], SetTransform 3 NoTransform,
      Measure 1, Measure 2, Measure 3, SetDisplay 2 ''none'',
      Measure 1, Measure 2, Measure 3, SetDisplay 2 [],
      SetTransform 2 (Translate (Num 0) (Num 0)),
      SetTransform 3 (Translate (Num 0) (Num 0)), RequestAnimationFrame]"
  by (simp add: componentDidUpdate_def measure_and_animate_def updateDomNodes_def
      for_in_children_def demo_world_def demo_children_def demo_env_def demo_props_def
      cancel_all_def set_transition_def set_transform_def set_display_def Let_def
      capture_real_def capture_ending_def measure_node_def hide_leaving_def hide_step_def
      for_in_leavingKeys_def calculate_animations_def plan_key_def resolve_position_def
      requestAnimationFrame_def blank_style_def transition_value_def)

text \<open>
  C3, amended. A pass after an update with new props that returns, entered with a well
  formed registry holding the key: the pass first invokes the registered cancel closures
  and makes no other call meanwhile, the closure of the key among them; after these
  calls the node of the key has its transition and transform cleared and the registry
  is empty. Only then is the real snapshot measured, for every key of the mapping and
  under the cleared styles; the start transforms of the newly planned keys are written
  after that, followed by the request of the first frame, and the registry then holds
  the newly planned keys and no other. No translation is written to any node before the
  closure of the key has been invoked.
\<close>

theorem update_cancels_before_writing:
  assumes "pid prevProps \<noteq> pid (props w)"
    and "registry_ok (animations w)"
    and "map_of (animations w) key \<noteq> None"
    and "componentDidUpdate E prevProps w = Inr w'"
  shows "\<exists>w2 cancels mid planned n.
           cancel_all (updateDomNodes E w) = Inr w2 \<and>
           trace w2 = trace w @ cancels \<and>
           (\<forall>e\<in>set cancels. is_cancel_event e) \<and>
           CancelInvoked key \<in> set cancels \<and>
           animations w2 = [] \<and>
           domNodes w2 key = Some n \<and>
           transition (styles w2 n) = [] \<and> transform (styles w2 n) = NoTransform \<and>
           (\<forall>k\<in>set (for_in_children w). realPositions w' k =
              Some (case domNodes w2 k of None \<Rightarrow> EmptyObject | Some m \<Rightarrow> measure_node E w2 m)) \<and>
           trace w' = trace w @ cancels @
              map Measure (List.map_filter (domNodes w2) (for_in_children w)) @ mid @
              map (\<lambda>(k, d). SetTransform (the (domNodes w2 k)) (fst d)) planned @
              [RequestAnimationFrame] \<and>
           (\<forall>(k, d)\<in>set planned. domNodes w2 k \<noteq> None) \<and>
           frames w' = frames w @ [Frame1 planned] \<and>
           fst ` set (animations w') = fst ` set planned \<and>
           (\<forall>m. \<not> overwritten_uncancelled key m (drop (length (trace w)) (trace w')))"
proof -
  define w1 where "w1 = updateDomNodes E w"
  from assms(1,4) obtain w2 where cancel: "cancel_all w1 = Inr w2"
    and later: "measure_and_animate E w2 = Inr w'"
    unfolding w1_def by (auto simp: componentDidUpdate_def split: sum.splits)
  have w1: "w1 = w\<lparr>domNodes := domNodes w1\<rparr>"
    unfolding w1_def by (rule updateDomNodes_frame)
  have f1: "animations w1 = animations w" "trace w1 = trace w" "children w1 = children w"
    "heap w1 = heap w" "frames w1 = frames w"
    by (subst w1, simp)+
  have ok1: "registry_ok (animations w1)" unfolding f1 by (rule assms(2))
  from cancel_all_effect[OF ok1 cancel] obtain cancels where
    c: "trace w2 = trace w @ cancels" "\<forall>e\<in>set cancels. is_cancel_event e"
       "\<forall>k\<in>fst ` set (animations w). CancelInvoked k \<in> set cancels" "animations w2 = []"
    unfolding f1 by blast
  from cancel_loop_frame[OF cancel[unfolded cancel_all_def]]
  have w2: "w2 = w1\<lparr>styles := styles w2, animations := animations w2, trace := trace w2\<rparr>" .
  have f2: "domNodes w2 = domNodes w1" "children w2 = children w1" "heap w2 = heap w1"
    "frames w2 = frames w1"
    by (subst w2, simp)+
  have keys: "for_in_children w2 = for_in_children w"
    by (rule for_in_children_unchanged) (simp_all add: f1 f2)
  from assms(3) have reg: "key \<in> fst ` set (animations w)"
    by (simp add: map_of_eq_None_iff)
  with c(3) have inv: "CancelInvoked key \<in> set cancels" by blast
  from reg have inset: "key \<in> set (map fst (animations w1))" unfolding f1 by simp
  from assms(3) have neq: "map_of (animations w1) key \<noteq> None" unfolding f1 .
  from cancel_loop_cleared[OF ok1 cancel[unfolded cancel_all_def], rule_format, OF inset neq]
  obtain n where n: "domNodes w1 key = Some n"
    and cleared: "transition (styles w2 n) = []" "transform (styles w2 n) = NoTransform"
    by blast
  obtain mid planned where
    tr: "trace w' = trace w2 @ map Measure (List.map_filter (domNodes w2) (for_in_children w2)) @ mid @
                map (\<lambda>(k, d). SetTransform (the (domNodes w2 k)) (fst d)) planned @
                [RequestAnimationFrame]"
    and nodes: "\<forall>(k, d)\<in>set planned. domNodes w2 k \<noteq> None"
    and fr: "frames w' = frames w2 @ [Frame1 planned]"
    and an: "fst ` set (animations w') = fst ` set (animations w2) \<union> fst ` set planned"
    and real: "\<forall>k\<in>set (for_in_children w2). realPositions w' k =
        Some (case domNodes w2 k of None \<Rightarrow> EmptyObject | Some n \<Rightarrow> measure_node E w2 n)"
    by (rule measure_and_animate_effect[OF later])
  let ?rest = "map Measure (List.map_filter (domNodes w2) (for_in_children w)) @ mid @
              map (\<lambda>(k, d). SetTransform (the (domNodes w2 k)) (fst d)) planned @
              [RequestAnimationFrame]"
  have tr': "trace w' = trace w @ cancels @ ?rest"
    using tr c(1) unfolding keys by simp
  have n2: "domNodes w2 key = Some n" using n f2(1) by simp
  have fr': "frames w' = frames w @ [Frame1 planned]"
    using fr f2(4) f1(5) by simp
  have an': "fst ` set (animations w') = fst ` set planned"
    using an c(4) by simp
  have real': "\<forall>k\<in>set (for_in_children w). realPositions w' k =
        Some (case domNodes w2 k of None \<Rightarrow> EmptyObject | Some m \<Rightarrow> measure_node E w2 m)"
    using real unfolding keys .
  have no: "\<forall>m. \<not> overwritten_uncancelled key m (drop (length (trace w)) (trace w'))"
  proof
    fix m
    have "\<not> overwritten_uncancelled key m (cancels @ ?rest)"
      by (rule cancel_first_not_overwritten[OF c(2) inv])
    then show "\<not> overwritten_uncancelled key m (drop (length (trace w)) (trace w'))"
      unfolding tr' by simp
  qed
  show ?thesis
    apply (rule exI[of _ w2])
    apply (rule exI[of _ cancels])
    apply (rule exI[of _ mid])
    apply (rule exI[of _ planned])
    apply (rule exI[of _ n])
    apply (intro conjI)
                apply (rule cancel[unfolded w1_def])
               apply (rule c(1))
              apply (rule c(2))
             apply (rule inv)
            apply (rule c(4))
           apply (rule n2)
          apply (rule cleared(1))
         apply (rule cleared(2))
        apply (rule real')
       apply (rule tr')
      apply (rule nodes)
     apply (rule fr')
    apply (rule an')
    apply (rule no)
    done
qed

theorem update_cancels_before_writing_witness:
  "\<exists>w'. componentDidUpdate demo_env (demo_props 1 []) demo_world = Inr w' \<and>
     (\<exists>w2 cancels mid planned n.
           cancel_all (updateDomNodes demo_env demo_world) = Inr w2 \<and>
           trace w2 = trace demo_world @ cancels \<and>
           (\<forall>e\<in>set cancels. is_cancel_event e) \<and>
           CancelInvoked ''c'' \<in> set cancels \<and>
           animations w2 = [] \<and>
           domNodes w2 ''c'' = Some n \<and>
           transition (styles w2 n) = [] \<and> transform (styles w2 n) = NoTransform \<and>
           (\<forall>k\<in>set (for_in_children demo_world). realPositions w' k =
              Some (case domNodes w2 k of None \<Rightarrow> EmptyObject
                    | Some m \<Rightarrow> measure_node demo_env w2 m)) \<and>
           trace w' = trace demo_world @ cancels @
              map Measure (List.map_filter (domNodes w2) (for_in_children demo_world)) @ mid @
              map (\<lambda>(k, d). SetTransform (the (domNodes w2 k)) (fst d)) planned @
              [RequestAnimationFrame] \<and>
           (\<forall>(k, d)\<in>set planned. domNodes w2 k \<noteq> None) \<and>
           frames w' = frames demo_world @ [Frame1 planned] \<and>
           fst ` set (animations w') = fst ` set planned \<and>
           (\<forall>m. \<not> overwritten_uncancelled ''c'' m
                  (drop (length (trace demo_world)) (trace w'))))"
proof -
  have "\<exists>w'. componentDidUpdate demo_env (demo_props 1 []) demo_world = Inr w'"
    by (simp add: componentDidUpdate_def measure_and_animate_def updateDomNodes_def
      for_in_children_def demo_world_def demo_children_def demo_env_def demo_props_def
      cancel_all_def set_transition_def set_transform_def set_display_def Let_def
      capture_real_def capture_ending_def measure_node_def hide_leaving_def hide_step_def
      for_in_leavingKeys_def calculate_animations_def plan_key_def resolve_position_def
      requestAnimationFrame_def blank_style_def transition_value_def)
  then obtain w' where run: "componentDidUpdate demo_env (demo_props 1 []) demo_world = Inr w'"
    by blast
  have p: "pid (demo_props 1 []) \<noteq> pid (props demo_world)"
    by (simp add: demo_world_def demo_props_def)
  have ok: "registry_ok (animations demo_world)"
    by (simp add: demo_world_def registry_ok_def)
  have reg: "map_of (animations demo_world) ''c'' \<noteq> None"
    by (simp add: demo_world_def)
  show ?thesis
    apply (rule exI[of _ w'])
    apply (rule conjI)
     apply (rule run)
    apply (rule update_cancels_before_writing[OF p ok reg run])
    done
qed

section \<open>The hide, capture and restore sequence inside the pass\<close>











section \<open>The transition-completion handler\<close>







text \<open>The concrete update, run by the code through the pass after the update and the two
  frames, arrives at the world with both transitions running.\<close>

lemma demo_running_reached:
  "(case componentDidUpdate demo_env (demo_props 1 []) demo_world of
      Inl e \<Rightarrow> None
    | Inr w1 \<Rightarrow>
        (case run_frame (last (frames w1)) w1 of
           Inl e \<Rightarrow> None
         | Inr w2 \<Rightarrow>
             (case run_frame (last (frames w2)) w2 of
                Inl e \<Rightarrow> None
              | Inr w3 \<Rightarrow> Some (w3\<lparr>frames := [], trace := []\<rparr>)))) = Some demo_running"
  by (simp add: componentDidUpdate_def measure_and_animate_def updateDomNodes_def
      for_in_children_def demo_world_def demo_children_def demo_env_def demo_props_def
      cancel_all_def set_transition_def set_transform_def set_display_def Let_def
      capture_real_def capture_ending_def measure_node_def hide_leaving_def hide_step_def
      for_in_leavingKeys_def calculate_animations_def plan_key_def resolve_position_def
      requestAnimationFrame_def blank_style_def transition_value_def demo_running_def
      demo_measured_def fun_eq_iff)



end
